theory Spec2Isabelle
  imports Complex_Main "HOL-Library.AList"
begin

section \<open>Dialogue to audio: a model of \<open>main.py\<close>\<close>

text \<open>
  The program reads a dialogue script, assigns a voice to every speaker, has each line
  synthesised by an external text-to-speech service and splices the clips, each followed
  by a pause of random length, into one audio file.

  A Python string is modelled as a \<open>string\<close> whose characters are the code points
  below 256; the character classes below are those of Python 3 on these code points:
  \<open>str.isspace\<close>, which \<open>str.strip\<close> and the class \<open>\s\<close> of a \<open>str\<close> pattern use,
  and \<open>str.isalnum\<close> with the underscore, which is the class \<open>\w\<close> of a \<open>str\<close>
  pattern. The progress bar, which goes to the standard error stream, the temporary file
  of each clip and the failures of the speech service are left out.
\<close>

subsection \<open>Characters and strings\<close>

definition NL :: char where
  "NL = CHR 0x0A"

definition is_space :: "char \<Rightarrow> bool" where
  \<comment> \<open>\<open>str.isspace\<close> and \<open>\s\<close>: tab, line feed, vertical tab, form feed, carriage
      return, the four separators 0x1C to 0x1F, the space, the next-line control 0x85
      and the no-break space 0xA0.\<close>
  "is_space c =
     (let n = (of_char c :: nat) in
        (9 \<le> n \<and> n \<le> 13) \<or> (28 \<le> n \<and> n \<le> 32) \<or> n = 133 \<or> n = 160)"

definition is_word :: "char \<Rightarrow> bool" where
  \<comment> \<open>\<open>\w\<close>: the underscore and what \<open>str.isalnum\<close> accepts: the ASCII digits and
      letters, the ordinal indicators 0xAA and 0xBA, the superscript digits 0xB2, 0xB3
      and 0xB9, the micro sign 0xB5, the fractions 0xBC to 0xBE, and the letters from
      0xC0 to 0xFF, which leaves out the signs 0xD7 and 0xF7.\<close>
  "is_word c =
     (let n = (of_char c :: nat) in
        (48 \<le> n \<and> n \<le> 57) \<or> (65 \<le> n \<and> n \<le> 90) \<or> (97 \<le> n \<and> n \<le> 122) \<or> n = 95 \<or>
        n = 170 \<or> n = 178 \<or> n = 179 \<or> n = 181 \<or> n = 185 \<or> n = 186 \<or>
        (188 \<le> n \<and> n \<le> 190) \<or> (192 \<le> n \<and> n \<le> 255 \<and> n \<noteq> 215 \<and> n \<noteq> 247))"

fun split_nl :: "string \<Rightarrow> string list" where
  \<comment> \<open>\<open>content.split("\n")\<close>: one more piece than there are line feeds.\<close>
  "split_nl [] = [[]]"
| "split_nl (c # cs) =
     (if c = NL then [] # split_nl cs
      else (case split_nl cs of [] \<Rightarrow> [[c]] | l # ls \<Rightarrow> (c # l) # ls))"

definition strip :: "string \<Rightarrow> string" where
  \<comment> \<open>\<open>line.strip()\<close>: whitespace removed at both ends.\<close>
  "strip s = rev (dropWhile is_space (rev (dropWhile is_space s)))"

subsection \<open>The pattern \<open>(\w+):\s*(.+)\<close>\<close>

text \<open>
  \<open>re.match\<close> anchors the pattern at the start of the string and need not reach its
  end. \<open>\w+\<close> is greedy; the colon is no word character, so only the longest run of
  word characters can be followed by it. \<open>\s*\<close> is greedy as well and \<open>.\<close> matches
  everything but the line feed: when something other than whitespace follows the
  whitespace, the second group starts there and runs to the next line feed or the end.
  When only whitespace follows the colon, the matcher backtracks: \<open>\s*\<close> gives back
  characters from its right end until \<open>.+\<close> finds one that is no line feed, which is
  then the whole second group.
\<close>

definition backtrack_space :: "string \<Rightarrow> string option" where
  "backtrack_space ws =
     (case dropWhile (\<lambda>c. c = NL) (rev ws) of [] \<Rightarrow> None | c # _ \<Rightarrow> Some [c])"

definition re_match :: "string \<Rightarrow> (string \<times> string) option" where
  "re_match s =
     (let w = takeWhile is_word s; r = dropWhile is_word s in
      if w = [] then None
      else (case r of
              [] \<Rightarrow> None
            | c # rest \<Rightarrow>
                if c \<noteq> CHR '':'' then None
                else (let ws = takeWhile is_space rest; t = dropWhile is_space rest in
                      if t \<noteq> [] then Some (w, takeWhile (\<lambda>c. c \<noteq> NL) t)
                      else map_option (\<lambda>g. (w, g)) (backtrack_space ws))))"

definition match_line :: "string \<Rightarrow> (string \<times> string) option" where
  \<comment> \<open>\<open>re.match(r"(\w+):\s*(.+)", line.strip())\<close> and, on a match, its groups.\<close>
  "match_line line = re_match (strip line)"

subsection \<open>Errors, the outside world and the state of a run\<close>

datatype py_error =
    FileNotFoundError
  | JSONDecodeError
  | ZeroDivisionError
  | IndexError
  | KeyError string
  | ValueError
  | SystemExit int

text \<open>
  A decoded clip and a stretch of silence are the two kinds of audio the program
  handles. An \<open>AudioSegment\<close> is modelled by the sequence of the pieces it was put
  together from (\<open>+\<close> appends), a clip with what \<open>len\<close> gives for it, a silence with
  the duration asked of \<open>AudioSegment.silent\<close>. The length of a segment put together is
  not modelled: it is a count of frames, rounded.
\<close>

datatype piece =
    Clip string string nat    \<comment> \<open>text, voice, \<open>len\<close> of the decoded clip in ms\<close>
  | Silence nat               \<comment> \<open>the \<open>duration\<close> argument in ms\<close>

type_synonym audio = "piece list"

type_synonym dict = "(string \<times> string) list"
  \<comment> \<open>a dictionary of strings: its items in insertion order, looked up with \<open>map_of\<close>\<close>

text \<open>
  What the run cannot decide itself: the text of the files, what \<open>open\<close> and
  \<open>json.load\<close> make of the speaker map (an object of strings, or the error raised), the
  voice catalogue and the clips of the speech service (the length of the clip answering
  the k-th request), the standard normal variates of numpy's generator, and the order in
  which Python iterates over a set. A set is represented by the elements added to it, in
  the order they were added; \<open>set_iter\<close> gives the order of iteration.
\<close>

record env =
  file_text :: "string \<rightharpoonup> string"
  json_load :: "string \<Rightarrow> py_error + dict"
  voice_names :: "string list"
  clip_ms :: "nat \<Rightarrow> string \<Rightarrow> string \<Rightarrow> nat"
  gauss :: "nat \<Rightarrow> real"
  set_iter :: "string list \<Rightarrow> string list"

definition set_iter_ok :: "(string list \<Rightarrow> string list) \<Rightarrow> bool" where
  \<comment> \<open>Iterating over a set visits each of its elements once.\<close>
  "set_iter_ok f \<longleftrightarrow> (\<forall>xs. distinct (f xs) \<and> set (f xs) = set xs)"

record world =
  out :: "string list"                       \<comment> \<open>what has been printed, one entry per \<open>print\<close>\<close>
  requests :: "(string \<times> string) list"       \<comment> \<open>synthesis requests made: text and voice\<close>
  draws :: nat                               \<comment> \<open>variates drawn\<close>

definition w_init :: world where
  \<comment> \<open>At the start of a run nothing is printed, requested or drawn.\<close>
  "w_init = \<lparr>out = [], requests = [], draws = 0\<rparr>"

definition print :: "string \<Rightarrow> world \<Rightarrow> world" where
  "print s w = w\<lparr>out := out w @ [s]\<rparr>"

fun join :: "string \<Rightarrow> string list \<Rightarrow> string" where
  "join sep [] = []"
| "join sep [x] = x"
| "join sep (x # y # ys) = x @ sep @ join sep (y # ys)"

subsection \<open>\<open>parse_dialogue_file\<close>\<close>

fun parse_lines ::
  "string list \<Rightarrow> (string \<times> string) list \<times> string list \<Rightarrow> (string \<times> string) list \<times> string list"
where
  "parse_lines [] (dialogue, characters) = (dialogue, characters)"
| "parse_lines (line # lines) (dialogue, characters) =
     (case match_line line of
        Some (character, text) \<Rightarrow>
          parse_lines lines (dialogue @ [(character, text)], characters @ [character])
      | None \<Rightarrow> parse_lines lines (dialogue, characters))"

definition parse_dialogue_file ::
  "env \<Rightarrow> string \<Rightarrow> py_error + ((string \<times> string) list \<times> string list)"
where
  "parse_dialogue_file e file_path =
     (case file_text e file_path of
        None \<Rightarrow> Inl FileNotFoundError
      | Some content \<Rightarrow>
          (case parse_lines (split_nl content) ([], []) of
             (dialogue, characters) \<Rightarrow> Inr (dialogue, set_iter e characters)))"

subsection \<open>Voices\<close>

definition get_available_voices :: "env \<Rightarrow> string list" where
  "get_available_voices e = voice_names e"

fun assign_loop :: "nat \<Rightarrow> string list \<Rightarrow> string list \<Rightarrow> dict \<Rightarrow> py_error + dict" where
  "assign_loop i [] available_voices voice_map = Inr voice_map"
| "assign_loop i (character # rest) available_voices voice_map =
     (if length available_voices = 0 then Inl ZeroDivisionError
      else assign_loop (Suc i) rest available_voices
             (AList.update character (available_voices ! (i mod length available_voices))
                voice_map))"

definition assign_voices_to_characters :: "string list \<Rightarrow> string list \<Rightarrow> py_error + dict" where
  "assign_voices_to_characters characters available_voices =
     assign_loop 0 characters available_voices []"

subsection \<open>Synthesis and assembly\<close>

text \<open>
  \<open>generate_character_audio\<close> looks the voice up and requests the clip;
  \<open>save_temp_audio\<close> and \<open>AudioSegment.from_mp3\<close> turn the answer into a segment,
  here the clip itself.
\<close>

definition generate_character_audio ::
  "env \<Rightarrow> string \<Rightarrow> string \<Rightarrow> dict \<Rightarrow> world \<Rightarrow> (py_error + piece) \<times> world"
where
  "generate_character_audio e character text voice_map w =
     (case map_of voice_map character of
        None \<Rightarrow> (Inl (KeyError character), w)
      | Some voice \<Rightarrow>
          (Inr (Clip text voice (clip_ms e (length (requests w)) text voice)),
           w\<lparr>requests := requests w @ [(text, voice)]\<rparr>))"

definition py_int :: "real \<Rightarrow> int" where
  \<comment> \<open>\<open>int(x)\<close> truncates towards zero.\<close>
  "py_int x = (if 0 \<le> x then \<lfloor>x\<rfloor> else \<lceil>x\<rceil>)"

definition normal :: "real \<Rightarrow> real \<Rightarrow> real \<Rightarrow> py_error + real" where
  \<comment> \<open>\<open>np.random.normal(loc, scale)\<close>: a negative scale is refused, otherwise the
      standard normal variate \<open>z\<close> is scaled and shifted. Floats are taken as reals.\<close>
  "normal loc scale z = (if scale < 0 then Inl ValueError else Inr (loc + scale * z))"

definition pause_duration :: "int \<Rightarrow> int \<Rightarrow> real \<Rightarrow> py_error + int" where
  "pause_duration p_mean p_stdev z =
     (case normal (of_int p_mean) (of_int p_stdev) z of
        Inl err \<Rightarrow> Inl err
      | Inr x \<Rightarrow> Inr (max 0 (py_int x)))"

fun conversation_loop ::
  "env \<Rightarrow> (string \<times> string) list \<Rightarrow> dict \<Rightarrow> int \<Rightarrow> int \<Rightarrow> audio \<Rightarrow> world
     \<Rightarrow> (py_error + audio) \<times> world"
where
  "conversation_loop e [] voice_map p_mean p_stdev conversation w = (Inr conversation, w)"
| "conversation_loop e ((character, text) # rest) voice_map p_mean p_stdev conversation w =
     (case generate_character_audio e character text voice_map w of
        (Inl err, w') \<Rightarrow> (Inl err, w')
      | (Inr audio_segment, w') \<Rightarrow>
          (case pause_duration p_mean p_stdev (gauss e (draws w')) of
             Inl err \<Rightarrow> (Inl err, w')
           | Inr p \<Rightarrow>
               conversation_loop e rest voice_map p_mean p_stdev
                 (conversation @ ([audio_segment] @ [Silence (nat p)]))
                 (w'\<lparr>draws := Suc (draws w')\<rparr>)))"

definition create_conversation_audio ::
  "env \<Rightarrow> (string \<times> string) list \<Rightarrow> dict \<Rightarrow> int \<Rightarrow> int \<Rightarrow> world \<Rightarrow> (py_error + audio) \<times> world"
where
  "create_conversation_audio e dialogue voice_map p_mean p_stdev w =
     conversation_loop e dialogue voice_map p_mean p_stdev [] w"

subsection \<open>\<open>main\<close>\<close>

record args =
  input_file :: string
  speaker_map :: "string option"
  pause_mean :: int
  pause_stdev :: int

definition rsplit1 :: "char \<Rightarrow> string \<Rightarrow> string list" where
  \<comment> \<open>\<open>s.rsplit(sep, 1)\<close>: split once, at the last separator.\<close>
  "rsplit1 sep s =
     (if sep \<in> set s
      then [rev (tl (dropWhile (\<lambda>c. c \<noteq> sep) (rev s))), rev (takeWhile (\<lambda>c. c \<noteq> sep) (rev s))]
      else [s])"

definition output_file :: "string \<Rightarrow> py_error + string" where
  "output_file input =
     (case rsplit1 CHR ''.'' input of
        [] \<Rightarrow> Inl IndexError
      | stem # _ \<Rightarrow> Inr (stem @ ''_output.wav''))"

definition truthy :: "string option \<Rightarrow> bool" where
  \<comment> \<open>\<open>if args.speaker_map:\<close> holds for a path that is given and not empty.\<close>
  "truthy p = (case p of None \<Rightarrow> False | Some s \<Rightarrow> s \<noteq> [])"

definition invalid_voices :: "env \<Rightarrow> dict \<Rightarrow> string list \<Rightarrow> string list" where
  \<comment> \<open>\<open>set(custom_voice_map.values()) - set(available_voices)\<close>\<close>
  "invalid_voices e custom_voice_map available_voices =
     filter (\<lambda>v. v \<notin> set available_voices) (set_iter e (map snd custom_voice_map))"

definition choose_voice_map ::
  "env \<Rightarrow> args \<Rightarrow> string list \<Rightarrow> string list \<Rightarrow> world \<Rightarrow> (py_error + dict) \<times> world"
where
  \<comment> \<open>The \<open>if args.speaker_map: ... else: ...\<close> of \<open>main\<close>; a path that is truthy
      is there, so \<open>the\<close> is applied to \<open>Some\<close> only.\<close>
  "choose_voice_map e a characters available_voices w =
     (if truthy (speaker_map a) then
        (case json_load e (the (speaker_map a)) of
           Inl err \<Rightarrow> (Inl err, w)
         | Inr custom_voice_map \<Rightarrow>
             (let invalid = invalid_voices e custom_voice_map available_voices in
              if invalid \<noteq> [] then
                (Inl (SystemExit 1),
                 print (''Available voices: '' @ join '', '' available_voices)
                   (print (''Warning: The following voices in the custom map are not available: ''
                             @ join '', '' (set_iter e invalid)) w))
              else (Inr custom_voice_map, w)))
      else (assign_voices_to_characters characters available_voices, w))"

fun print_assignments :: "dict \<Rightarrow> world \<Rightarrow> world" where
  "print_assignments [] w = w"
| "print_assignments ((character, voice) # rest) w =
     print_assignments rest (print (character @ '': '' @ voice) w)"

definition main :: "env \<Rightarrow> args \<Rightarrow> (py_error + string \<times> audio) \<times> world" where
  "main e a =
     (case parse_dialogue_file e (input_file a) of
        Inl err \<Rightarrow> (Inl err, w_init)
      | Inr (dialogue, characters) \<Rightarrow>
          (case choose_voice_map e a characters (get_available_voices e) w_init of
             (Inl err, w1) \<Rightarrow> (Inl err, w1)
           | (Inr voice_map, w1) \<Rightarrow>
               (let w2 = print_assignments voice_map (print ''Voice assignments:'' w1) in
                case create_conversation_audio e dialogue voice_map
                       (pause_mean a) (pause_stdev a) w2 of
                  (Inl err, w3) \<Rightarrow> (Inl err, w3)
                | (Inr conversation, w3) \<Rightarrow>
                    (case output_file (input_file a) of
                       Inl err \<Rightarrow> (Inl err, w3)
                     | Inr name \<Rightarrow>
                         (Inr (name, conversation),
                          print ([NL] @ ''Conversation audio generated and saved as ''
                                   @ [CHR 0x27] @ name @ [CHR 0x27]) w3)))))"

subsection \<open>What a line contributes, first-seen order and sample runs\<close>

definition line_clip :: "env \<Rightarrow> dict \<Rightarrow> nat \<Rightarrow> string \<times> string \<Rightarrow> piece" where
  \<comment> \<open>The clip that answers request number \<open>k\<close>, made for a line whose speaker has a voice.\<close>
  "line_clip e voice_map k l =
     (case l of (character, text) \<Rightarrow>
        (case map_of voice_map character of
           None \<Rightarrow> Clip text [] 0
         | Some voice \<Rightarrow> Clip text voice (clip_ms e k text voice)))"

definition line_pause :: "env \<Rightarrow> int \<Rightarrow> int \<Rightarrow> nat \<Rightarrow> nat" where
  \<comment> \<open>The pause computed from draw number \<open>k\<close>, for a deviation that is not negative.\<close>
  "line_pause e p_mean p_stdev k =
     nat (max 0 (py_int (of_int p_mean + of_int p_stdev * gauss e k)))"

fun first_seen :: "'a list \<Rightarrow> 'a list" where
  \<comment> \<open>The distinct elements of a list, each at the place of its first occurrence.\<close>
  "first_seen [] = []"
| "first_seen (x # xs) = x # filter (\<lambda>y. y \<noteq> x) (first_seen xs)"

definition sample_env ::
  "string \<Rightarrow> dict option \<Rightarrow> string list \<Rightarrow> (string list \<Rightarrow> string list) \<Rightarrow> env"
where
  \<comment> \<open>A script at \<open>script.txt\<close>, possibly a speaker map at \<open>map.json\<close>, clips of
      1000 ms, 1500 ms, 2000 ms and so on, and variates that are all 0.\<close>
  "sample_env content custom voices order =
     \<lparr>file_text = (\<lambda>p. if p = ''script.txt'' then Some content else None),
      json_load = (\<lambda>p. if p = ''map.json'' then
                         (case custom of None \<Rightarrow> Inl JSONDecodeError | Some d \<Rightarrow> Inr d)
                       else Inl FileNotFoundError),
      voice_names = voices,
      clip_ms = (\<lambda>k text voice. 1000 + 500 * k),
      gauss = (\<lambda>k. 0),
      set_iter = order\<rparr>"

definition sample_args :: "string option \<Rightarrow> int \<Rightarrow> int \<Rightarrow> args" where
  "sample_args m p_mean p_stdev =
     \<lparr>input_file = ''script.txt'', speaker_map = m, pause_mean = p_mean, pause_stdev = p_stdev\<rparr>"

section \<open>Properties\<close>

subsection \<open>The name of the output file\<close>

lemma rsplit1_last:
  "sep \<notin> set ext \<Longrightarrow> rsplit1 sep (stem @ sep # ext) = [stem, ext]"
proof -
  assume n: "sep \<notin> set ext"
  have d: "dropWhile (\<lambda>c. c \<noteq> sep) (rev ext) = []"
    using n by (auto simp: dropWhile_eq_Nil_conv)
  have t: "takeWhile (\<lambda>c. c \<noteq> sep) (rev ext) = rev ext"
    using n by (auto simp: takeWhile_eq_all_conv)
  have "dropWhile (\<lambda>c. c \<noteq> sep) (rev (stem @ sep # ext)) = sep # rev stem"
    using n by (simp add: dropWhile_append3 d)
  moreover have "takeWhile (\<lambda>c. c \<noteq> sep) (rev (stem @ sep # ext)) = rev ext"
    using n by (simp add: takeWhile_append1 t takeWhile_tail)
  ultimately show ?thesis by (simp add: rsplit1_def)
qed

lemma rsplit1_none: "sep \<notin> set s \<Longrightarrow> rsplit1 sep s = [s]"
  by (simp add: rsplit1_def)

text \<open>
  C9. The output name is the input path up to its last dot (the whole path when it has
  no dot) followed by \<open>_output.wav\<close>: \<open>script.txt\<close> gives \<open>script_output.wav\<close> and
  \<open>a.b.txt\<close> gives \<open>a.b_output.wav\<close>.
\<close>

theorem output_file_strips_last_extension:
  "(CHR ''.'' \<notin> set ext \<longrightarrow> output_file (stem @ ''.'' @ ext) = Inr (stem @ ''_output.wav'')) \<and>
   (CHR ''.'' \<notin> set p \<longrightarrow> output_file p = Inr (p @ ''_output.wav'')) \<and>
   output_file ''script.txt'' = Inr ''script_output.wav'' \<and>
   output_file ''a.b.txt'' = Inr ''a.b_output.wav''"
proof -
  have a: "CHR ''.'' \<notin> set x \<Longrightarrow> output_file (s @ ''.'' @ x) = Inr (s @ ''_output.wav'')"
    for s x
    by (simp add: output_file_def rsplit1_last)
  have b: "CHR ''.'' \<notin> set p \<Longrightarrow> output_file p = Inr (p @ ''_output.wav'')"
    by (simp add: output_file_def rsplit1_none)
  have c: "output_file ''script.txt'' = Inr ''script_output.wav''"
    using a [of "''txt''" "''script''"] by simp
  have d: "output_file ''a.b.txt'' = Inr ''a.b_output.wav''"
    using a [of "''txt''" "''a.b''"] by simp
  from a b c d show ?thesis by blast
qed

theorem output_file_strips_last_extension_witness:
  "CHR ''.'' \<notin> set ''txt'' \<and>
   output_file (''a.b'' @ ''.'' @ ''txt'') = Inr (''a.b'' @ ''_output.wav'') \<and>
   CHR ''.'' \<notin> set ''script'' \<and>
   output_file ''script'' = Inr (''script'' @ ''_output.wav'')"
proof -
  have h1: "CHR ''.'' \<notin> set ''txt''" by simp
  have h2: "CHR ''.'' \<notin> set ''script''" by simp
  from h1 h2 output_file_strips_last_extension [of "''txt''" "''a.b''" "''script''"]
  show ?thesis by blast
qed

lemma main_exports_output_file:
  "fst (main e a) = Inr (name, conversation) \<Longrightarrow> output_file (input_file a) = Inr name"
  by (auto simp: main_def Let_def split: sum.splits prod.splits)

subsection \<open>Pauses\<close>

text \<open>
  C7. Whatever the mean, the deviation and the variate drawn, a pause that is computed
  is never negative, and one is computed whenever the deviation is not negative; with
  mean 500 and deviation 0 it is exactly 500 ms.
\<close>

theorem pause_never_negative:
  "(0 \<le> s \<longrightarrow> (\<exists>p. pause_duration m s z = Inr p \<and> 0 \<le> p)) \<and>
   (\<forall>p. pause_duration m s z = Inr p \<longrightarrow> 0 \<le> p) \<and>
   pause_duration 500 0 z = Inr 500"
  by (auto simp: pause_duration_def normal_def py_int_def split: if_splits)

theorem pause_never_negative_witness:
  "(0::int) \<le> 100 \<and> pause_duration 500 100 (-7) = Inr 0 \<and> (0::int) \<le> 0"
proof -
  have v: "pause_duration 500 100 (-7) = Inr 0"
    by (simp add: pause_duration_def normal_def py_int_def)
  from pause_never_negative [of 100 500 "-7"] v show ?thesis by simp
qed

subsection \<open>Lines and the pattern\<close>

lemma word_not_space: "is_word c \<Longrightarrow> \<not> is_space c"
  by (auto simp: is_word_def is_space_def Let_def)

lemma colon_not_word: "\<not> is_word CHR '':''"
  by (simp add: is_word_def)

lemma colon_not_space: "\<not> is_space CHR '':''"
  by (simp add: is_space_def)

lemma NL_is_space: "is_space NL"
  by (simp add: is_space_def NL_def)

lemma strip_trims:
  assumes "\<forall>c\<in>set pre. is_space c" and "\<forall>c\<in>set post. is_space c"
    and "body \<noteq> []" and "\<not> is_space (hd body)" and "\<not> is_space (last body)"
  shows "strip (pre @ body @ post) = body"
proof -
  from assms(3) obtain b bs where b: "body = b # bs" by (cases body) auto
  have "dropWhile is_space (pre @ body @ post) = dropWhile is_space (body @ post)"
    using assms(1) by (simp add: dropWhile_append2)
  also have "\<dots> = body @ post"
    using assms(4) b by simp
  finally have 1: "dropWhile is_space (pre @ body @ post) = body @ post" .
  from assms(3) obtain l ls where l: "rev body = l # ls" by (cases "rev body") auto
  then have "l = last body" using assms(3) by (metis last_rev list.sel(1) rev_rev_ident hd_rev)
  then have nl: "\<not> is_space l" using assms(5) by simp
  have "dropWhile is_space (rev post @ rev body) = dropWhile is_space (rev body)"
    by (rule dropWhile_append2) (use assms(2) in auto)
  then have "dropWhile is_space (rev (body @ post)) = dropWhile is_space (rev body)"
    by simp
  also have "\<dots> = rev body" using l nl by simp
  finally show ?thesis using 1 by (simp add: strip_def)
qed

lemma strip_last_not_space:
  "strip s \<noteq> [] \<Longrightarrow> \<not> is_space (last (strip s))"
proof -
  assume ne: "strip s \<noteq> []"
  let ?d = "dropWhile is_space (rev (dropWhile is_space s))"
  from ne have "?d \<noteq> []" by (simp add: strip_def)
  then have "\<not> is_space (hd ?d)" by (rule hd_dropWhile)
  moreover have "last (strip s) = hd ?d"
    using \<open>?d \<noteq> []\<close> by (simp add: strip_def last_rev)
  ultimately show ?thesis by simp
qed

lemma strip_subset: "set (strip s) \<subseteq> set s"
proof -
  have "x \<in> set s" if "x \<in> set (strip s)" for x
  proof -
    from that have "x \<in> set (dropWhile is_space (rev (dropWhile is_space s)))"
      by (simp add: strip_def)
    then have "x \<in> set (rev (dropWhile is_space s))" by (rule set_dropWhileD)
    then have "x \<in> set (dropWhile is_space s)" by simp
    then show ?thesis by (rule set_dropWhileD)
  qed
  then show ?thesis by blast
qed

lemma re_match_well_formed:
  assumes "name \<noteq> []" and "\<forall>c\<in>set name. is_word c" and "\<forall>c\<in>set gap. is_space c"
    and "text \<noteq> []" and "\<not> is_space (hd text)" and "NL \<notin> set text"
  shows "re_match (name @ CHR '':'' # gap @ text) = Some (name, text)"
proof -
  have w: "takeWhile is_word (name @ CHR '':'' # gap @ text) = name"
    using assms(2) by (simp add: takeWhile_append2 colon_not_word)
  have r: "dropWhile is_word (name @ CHR '':'' # gap @ text) = CHR '':'' # gap @ text"
    using assms(2) by (simp add: dropWhile_append2 colon_not_word)
  from assms(4) obtain t ts where t: "text = t # ts" by (cases "text") auto
  have "dropWhile is_space (gap @ text) = dropWhile is_space text"
    by (rule dropWhile_append2) (use assms(3) in auto)
  then have ws: "dropWhile is_space (gap @ text) = text"
    using assms(5) t by simp
  have tk: "takeWhile (\<lambda>c. c \<noteq> NL) text = text"
    using assms(6) by (auto simp: takeWhile_eq_all_conv)
  show ?thesis
    unfolding re_match_def Let_def w r list.case ws tk using assms(1,4) by simp
qed

lemma re_match_shape:
  assumes "re_match s = Some (n, t)" and "NL \<notin> set s"
  shows "n \<noteq> [] \<and> (\<forall>c\<in>set n. is_word c) \<and> t \<noteq> [] \<and>
         (\<exists>ws. (\<forall>c\<in>set ws. is_space c) \<and> s = n @ CHR '':'' # ws @ t)"
proof -
  define w where "w = takeWhile is_word s"
  define r where "r = dropWhile is_word s"
  have m: "(if w = [] then None
            else case r of [] \<Rightarrow> None
                 | c # rest \<Rightarrow>
                     if c \<noteq> CHR '':'' then None
                     else if dropWhile is_space rest \<noteq> []
                          then Some (w, takeWhile (\<lambda>c. c \<noteq> NL) (dropWhile is_space rest))
                          else map_option (\<lambda>g. (w, g)) (backtrack_space (takeWhile is_space rest)))
           = Some (n, t)"
    using assms(1) unfolding re_match_def Let_def w_def r_def .
  have wr: "s = w @ r" by (simp add: w_def r_def)
  have ww: "\<forall>c\<in>set w. is_word c" by (auto simp: w_def dest: set_takeWhileD)
  from m have wne: "w \<noteq> []" by (auto split: if_splits)
  from m wne obtain rest where r: "r = CHR '':'' # rest"
    by (auto split: if_splits list.splits)
  define ws where "ws = takeWhile is_space rest"
  define tt where "tt = dropWhile is_space rest"
  have rest: "rest = ws @ tt" by (simp add: ws_def tt_def)
  have wss: "\<forall>c\<in>set ws. is_space c" by (auto simp: ws_def dest: set_takeWhileD)
  have nl: "NL \<notin> set rest" using assms(2) wr r by simp
  from m wne r have m': "(if tt \<noteq> [] then Some (w, takeWhile (\<lambda>c. c \<noteq> NL) tt)
            else map_option (\<lambda>g. (w, g)) (backtrack_space ws)) = Some (n, t)"
    by (auto simp: ws_def tt_def split: if_splits)
  show ?thesis
  proof (cases "tt = []")
    case False
    from nl rest have "takeWhile (\<lambda>c. c \<noteq> NL) tt = tt"
      by (auto simp: takeWhile_eq_all_conv)
    with m' False have "n = w" "t = tt" by auto
    moreover have "s = w @ CHR '':'' # ws @ tt" using wr r rest by simp
    ultimately show ?thesis using wne ww wss False by blast
  next
    case True
    with m' obtain g where g: "backtrack_space ws = Some g" and nt: "n = w" "t = g"
      by auto
    from g obtain c cs where d: "dropWhile (\<lambda>c. c = NL) (rev ws) = c # cs" and gc: "g = [c]"
      by (auto simp: backtrack_space_def split: list.splits)
    from nl rest have "NL \<notin> set (rev ws)" by simp
    then have "dropWhile (\<lambda>c. c = NL) (rev ws) = rev ws"
      by (cases "rev ws") auto
    with d have "rev ws = c # cs" by simp
    then have ws: "ws = rev cs @ [c]" by (metis rev.simps(2) rev_rev_ident)
    have "\<forall>x\<in>set (rev cs). is_space x" using wss ws by simp
    moreover have "s = w @ CHR '':'' # rev cs @ [c]" using wr r rest True ws by simp
    ultimately show ?thesis using wne ww nt gc by blast
  qed
qed

lemma split_nl_no_NL: "l \<in> set (split_nl s) \<Longrightarrow> NL \<notin> set l"
proof (induction s arbitrary: l)
  case Nil
  then show ?case by simp
next
  case (Cons c cs)
  show ?case
  proof (cases "c = NL")
    case True
    with Cons show ?thesis by auto
  next
    case False
    then show ?thesis using Cons by (auto split: list.splits)
  qed
qed

lemma parse_lines_map_filter:
  "parse_lines ls (d, cs) =
     (d @ List.map_filter match_line ls, cs @ map fst (List.map_filter match_line ls))"
  by (induction ls arbitrary: d cs) (auto simp: List.map_filter_simps split: option.splits)

text \<open>Letters and whitespace beyond ASCII: an accented name, no-break spaces, the next-line control.\<close>

lemma match_line_latin1_name:
  "match_line (''Jos'' @ [CHR 0xE9] @ '': hola'') = Some (''Jos'' @ [CHR 0xE9], ''hola'')"
  by (simp add: match_line_def re_match_def strip_def is_space_def is_word_def NL_def)

lemma match_line_no_break_space:
  "match_line ([CHR 0xA0] @ ''Ann:'' @ [CHR 0xA0] @ ''hi'' @ [CHR 0x85]) = Some (''Ann'', ''hi'')"
  by (simp add: match_line_def re_match_def strip_def is_space_def is_word_def NL_def)

subsection \<open>Assigning voices\<close>

lemma assign_loop_distinct:
  "distinct cs \<Longrightarrow> vs \<noteq> [] \<Longrightarrow>
   \<exists>vm'. assign_loop k cs vs vm = Inr vm' \<and>
     (\<forall>i<length cs. map_of vm' (cs ! i) = Some (vs ! ((k + i) mod length vs))) \<and>
     (\<forall>c. c \<notin> set cs \<longrightarrow> map_of vm' c = map_of vm c)"
proof (induction cs arbitrary: k vm)
  case Nil
  then show ?case by simp
next
  case (Cons c cs)
  let ?vm = "AList.update c (vs ! (k mod length vs)) vm"
  from Cons.prems have d: "distinct cs" and nin: "c \<notin> set cs" by simp_all
  from Cons.IH [OF d Cons.prems(2), of "Suc k" ?vm]
  obtain vm' where r: "assign_loop (Suc k) cs vs ?vm = Inr vm'"
    and ix: "\<forall>i<length cs. map_of vm' (cs ! i) = Some (vs ! ((Suc k + i) mod length vs))"
    and other: "\<forall>c'. c' \<notin> set cs \<longrightarrow> map_of vm' c' = map_of ?vm c'"
    by blast
  have run: "assign_loop k (c # cs) vs vm = Inr vm'"
    using r Cons.prems(2) by simp
  have "map_of vm' ((c # cs) ! i) = Some (vs ! ((k + i) mod length vs))" if "i < length (c # cs)" for i
  proof (cases i)
    case 0
    with other nin show ?thesis by (simp add: update_conv')
  next
    case (Suc j)
    with that ix show ?thesis by simp
  qed
  moreover have "map_of vm' c' = map_of vm c'" if "c' \<notin> set (c # cs)" for c'
    using that other by (simp add: update_conv')
  ultimately show ?case using run by blast
qed

lemma assign_loop_keys:
  "assign_loop k cs vs vm = Inr vm' \<Longrightarrow> fst ` set vm' = fst ` set vm \<union> set cs"
proof (induction cs arbitrary: k vm)
  case Nil
  then show ?case by simp
next
  case (Cons c cs)
  from Cons.prems have ne: "length vs \<noteq> 0" by (auto split: if_splits)
  with Cons.prems
  have "assign_loop (Suc k) cs vs (AList.update c (vs ! (k mod length vs)) vm) = Inr vm'"
    by simp
  from Cons.IH [OF this] show ?case by (auto simp: dom_update)
qed

lemma assign_loop_empty_catalogue:
  "cs \<noteq> [] \<Longrightarrow> assign_loop k cs [] vm = Inl ZeroDivisionError"
  by (cases cs) simp_all

lemma update_fresh: "k \<notin> fst ` set al \<Longrightarrow> AList.update k v al = al @ [(k, v)]"
  by (induction al) auto

lemma assign_loop_result:
  "distinct cs \<Longrightarrow> set cs \<inter> fst ` set vm = {} \<Longrightarrow> vs \<noteq> [] \<Longrightarrow>
   assign_loop k cs vs vm =
     Inr (vm @ map (\<lambda>i. (cs ! i, vs ! ((k + i) mod length vs))) [0..<length cs])"
proof (induction cs arbitrary: k vm)
  case Nil
  then show ?case by simp
next
  case (Cons c cs)
  let ?v = "vs ! (k mod length vs)"
  from Cons.prems have fresh: "c \<notin> fst ` set vm" by auto
  have u: "AList.update c ?v vm = vm @ [(c, ?v)]" by (rule update_fresh [OF fresh])
  from Cons.prems have d: "distinct cs" and i: "set cs \<inter> fst ` set (vm @ [(c, ?v)]) = {}"
    by auto
  have m: "map (\<lambda>i. ((c # cs) ! i, vs ! ((k + i) mod length vs))) [0..<length (c # cs)]
           = (c, ?v) # map (\<lambda>i. (cs ! i, vs ! ((Suc k + i) mod length vs))) [0..<length cs]"
    by (simp add: map_upt_Suc del: upt_Suc)
  from Cons.IH [OF d i Cons.prems(3), of "Suc k"] Cons.prems(3) show ?case
    unfolding m by (simp add: u)
qed

text \<open>
  C4 (as amended). Nothing guards an empty catalogue: with a speaker to serve, the
  modulo by the catalogue's length raises \<open>ZeroDivisionError\<close>, and the run ends with
  that fault before anything is printed or requested.
\<close>

theorem empty_catalogue_unguarded:
  assumes "\<not> truthy (speaker_map a)"
    and "parse_dialogue_file e (input_file a) = Inr (dialogue, characters)"
    and "characters \<noteq> []"
    and "get_available_voices e = []"
  shows "assign_voices_to_characters characters (get_available_voices e) = Inl ZeroDivisionError \<and>
         main e a = (Inl ZeroDivisionError, w_init)"
proof -
  have z: "assign_voices_to_characters characters (get_available_voices e) = Inl ZeroDivisionError"
    using assms(3,4) by (simp add: assign_voices_to_characters_def assign_loop_empty_catalogue)
  then have "choose_voice_map e a characters (get_available_voices e) w_init
             = (Inl ZeroDivisionError, w_init)"
    using assms(1) by (simp add: choose_voice_map_def)
  with assms(2) z show ?thesis by (simp add: main_def)
qed

theorem empty_catalogue_unguarded_witness:
  "\<not> truthy (speaker_map (sample_args None 500 100)) \<and>
   parse_dialogue_file (sample_env ''Ann: hello'' None [] remdups)
      (input_file (sample_args None 500 100)) = Inr ([(''Ann'', ''hello'')], [''Ann'']) \<and>
   [''Ann''] \<noteq> [] \<and>
   get_available_voices (sample_env ''Ann: hello'' None [] remdups) = [] \<and>
   assign_voices_to_characters [''Ann'']
     (get_available_voices (sample_env ''Ann: hello'' None [] remdups)) = Inl ZeroDivisionError \<and>
   main (sample_env ''Ann: hello'' None [] remdups) (sample_args None 500 100)
     = (Inl ZeroDivisionError, w_init)"
proof -
  have h1: "\<not> truthy (speaker_map (sample_args None 500 100))"
    by (simp add: truthy_def sample_args_def)
  have h2: "parse_dialogue_file (sample_env ''Ann: hello'' None [] remdups)
      (input_file (sample_args None 500 100)) = Inr ([(''Ann'', ''hello'')], [''Ann''])"
    by (simp add: parse_dialogue_file_def sample_env_def sample_args_def match_line_def
        re_match_def strip_def is_space_def is_word_def NL_def)
  have h3: "[''Ann''] \<noteq> []" by simp
  have h4: "get_available_voices (sample_env ''Ann: hello'' None [] remdups) = []"
    by (simp add: get_available_voices_def sample_env_def)
  from empty_catalogue_unguarded [OF h1 h2 h3 h4] h1 h2 h3 h4 show ?thesis by blast
qed

text \<open>The run of a one-line script against an empty catalogue.\<close>

theorem empty_catalogue_counterexample:
  "main (sample_env ''Bob: hi'' None [] remdups) (sample_args None 500 100)
     = (Inl ZeroDivisionError, \<lparr>out = [], requests = [], draws = 0\<rparr>)"
  by (simp add: main_def parse_dialogue_file_def sample_env_def sample_args_def match_line_def
      re_match_def strip_def is_space_def is_word_def NL_def choose_voice_map_def truthy_def
      get_available_voices_def assign_voices_to_characters_def w_init_def)

subsection \<open>Parsing\<close>

lemma set_first_seen: "set (first_seen xs) = set xs"
  by (induction xs) auto

lemma distinct_first_seen: "distinct (first_seen xs)"
  by (induction xs) (auto simp: set_first_seen)

lemma parse_dialogue_file_result:
  "file_text e p = Some content \<Longrightarrow>
   parse_dialogue_file e p =
     Inr (List.map_filter match_line (split_nl content),
          set_iter e (map fst (List.map_filter match_line (split_nl content))))"
  by (simp add: parse_dialogue_file_def parse_lines_map_filter)

lemma parse_dialogue_file_speakers:
  assumes "set_iter_ok (set_iter e)" and "parse_dialogue_file e p = Inr (dialogue, characters)"
  shows "distinct characters \<and> set characters = fst ` set dialogue"
proof -
  from assms(2) obtain content where c: "file_text e p = Some content"
    by (auto simp: parse_dialogue_file_def split: option.splits)
  from parse_dialogue_file_result [OF c] assms(2)
  have "characters = set_iter e (map fst dialogue)" by simp
  with assms(1) show ?thesis by (simp add: set_iter_ok_def)
qed

text \<open>
  C6. A line made of a name of word characters, a colon and a text, with any whitespace
  around them, yields the name and the text with the whitespace around them removed;
  the dialogue of a readable file is the matches of its lines in order, so a line that
  does not match adds nothing and raises nothing.
\<close>

theorem parse_well_formed_line:
  assumes "name \<noteq> []" and "list_all is_word name"
    and "text \<noteq> []" and "\<not> is_space (hd text)" and "\<not> is_space (last text)"
    and "NL \<notin> set text"
    and "list_all is_space pre" and "list_all is_space gap" and "list_all is_space post"
    and "file_text e p = Some content"
  shows "match_line (pre @ name @ '':'' @ gap @ text @ post) = Some (name, text) \<and>
         (\<exists>characters. parse_dialogue_file e p =
            Inr (List.map_filter match_line (split_nl content), characters)) \<and>
         (match_line line = None \<longrightarrow> parse_lines (line # lines) st = parse_lines lines st)"
proof -
  let ?body = "name @ CHR '':'' # gap @ text"
  have b: "?body \<noteq> []" by simp
  have h: "\<not> is_space (hd ?body)"
    using assms(1,2) by (cases name) (auto simp: word_not_space)
  have l: "\<not> is_space (last ?body)"
    using assms(3,5) by simp
  have "strip (pre @ ?body @ post) = ?body"
    by (rule strip_trims) (use assms(7,9) b h l in \<open>auto simp: list_all_iff\<close>)
  moreover have "re_match ?body = Some (name, text)"
    by (rule re_match_well_formed) (use assms in \<open>auto simp: list_all_iff\<close>)
  ultimately have 1: "match_line (pre @ name @ '':'' @ gap @ text @ post) = Some (name, text)"
    by (simp add: match_line_def)
  have 2: "match_line line = None \<longrightarrow> parse_lines (line # lines) st = parse_lines lines st"
    by (cases st) simp
  from 1 2 parse_dialogue_file_result [OF assms(10)] show ?thesis by simp
qed

theorem parse_well_formed_line_witness:
  "''Bob'' \<noteq> [] \<and> list_all is_word ''Bob'' \<and> ''hi  there'' \<noteq> [] \<and>
   \<not> is_space (hd ''hi  there'') \<and> \<not> is_space (last ''hi  there'') \<and> NL \<notin> set ''hi  there'' \<and>
   list_all is_space ''  '' \<and> list_all is_space '' '' \<and> list_all is_space [CHR 0xA0] \<and>
   file_text (sample_env (''Bob: hi'' @ [NL] @ [NL] @ ''no colon here'' @ [NL] @ ''Ann: yo'')
                None [''v0''] remdups) ''script.txt''
     = Some (''Bob: hi'' @ [NL] @ [NL] @ ''no colon here'' @ [NL] @ ''Ann: yo'') \<and>
   match_line (''  '' @ ''Bob'' @ '':'' @ '' '' @ ''hi  there'' @ [CHR 0xA0]) = Some (''Bob'', ''hi  there'') \<and>
   (\<exists>characters.
      parse_dialogue_file (sample_env (''Bob: hi'' @ [NL] @ [NL] @ ''no colon here'' @ [NL] @ ''Ann: yo'')
                             None [''v0''] remdups) ''script.txt''
        = Inr ([(''Bob'', ''hi''), (''Ann'', ''yo'')], characters)) \<and>
   match_line ''no colon here'' = None \<and>
   parse_lines [''no colon here'', ''Ann: yo''] ([(''Bob'', ''hi'')], [''Bob''])
     = parse_lines [''Ann: yo''] ([(''Bob'', ''hi'')], [''Bob''])"
proof -
  let ?c = "''Bob: hi'' @ [NL] @ [NL] @ ''no colon here'' @ [NL] @ ''Ann: yo''"
  let ?e = "sample_env ?c None [''v0''] remdups"
  have h1: "''Bob'' \<noteq> []" by simp
  have h2: "list_all is_word ''Bob''" by (simp add: is_word_def)
  have h3: "''hi  there'' \<noteq> []" by simp
  have h4: "\<not> is_space (hd ''hi  there'')" by (simp add: is_space_def)
  have h5: "\<not> is_space (last ''hi  there'')" by (simp add: is_space_def)
  have h6: "NL \<notin> set ''hi  there''" by (simp add: NL_def)
  have h7: "list_all is_space ''  ''" by (simp add: is_space_def)
  have h8: "list_all is_space '' ''" by (simp add: is_space_def)
  have h9: "list_all is_space [CHR 0xA0]" by (simp add: is_space_def)
  have h10: "file_text ?e ''script.txt'' = Some ?c" by (simp add: sample_env_def)
  have m: "match_line ''no colon here'' = None"
    by (simp add: match_line_def re_match_def strip_def is_space_def is_word_def)
  have v: "List.map_filter match_line (split_nl ?c) = [(''Bob'', ''hi''), (''Ann'', ''yo'')]"
    by (simp add: List.map_filter_simps NL_def match_line_def re_match_def strip_def
        is_space_def is_word_def)
  from parse_well_formed_line [OF h1 h2 h3 h4 h5 h6 h7 h8 h9 h10,
      of "''no colon here''" "[''Ann: yo'']" "([(''Bob'', ''hi'')], [''Bob''])"]
  have "match_line (''  '' @ ''Bob'' @ '':'' @ '' '' @ ''hi  there'' @ [CHR 0xA0]) = Some (''Bob'', ''hi  there'')"
    and "\<exists>characters. parse_dialogue_file ?e ''script.txt'' =
            Inr (List.map_filter match_line (split_nl ?c), characters)"
    and "parse_lines [''no colon here'', ''Ann: yo''] ([(''Bob'', ''hi'')], [''Bob''])
     = parse_lines [''Ann: yo''] ([(''Bob'', ''hi'')], [''Bob''])"
    using m by blast+
  then show ?thesis
    unfolding v using h1 h2 h3 h4 h5 h6 h7 h8 h9 h10 m by blast
qed


lemma first_split_unique:
  assumes "x \<notin> set xs" and "x \<notin> set xs'" and "xs @ x # ys = xs' @ x # ys'"
  shows "xs = xs' \<and> ys = ys'"
proof -
  have t: "takeWhile (\<lambda>c. c \<noteq> x) (zs @ x # ws) = zs" if "x \<notin> set zs" for zs ws
  proof -
    have "takeWhile (\<lambda>c. c \<noteq> x) (zs @ x # ws) = zs @ takeWhile (\<lambda>c. c \<noteq> x) (x # ws)"
      by (rule takeWhile_append2) (use that in auto)
    then show ?thesis by simp
  qed
  from t [OF assms(1), of ys] t [OF assms(2), of ys'] assms(3) have "xs = xs'" by simp
  with assms(3) show ?thesis by simp
qed

lemma match_line_shape:
  assumes "match_line line = Some (n, t)" and "NL \<notin> set line"
  shows "n \<noteq> [] \<and> list_all is_word n \<and> t \<noteq> [] \<and>
         (\<exists>ws. list_all is_space ws \<and> strip line = n @ '':'' @ ws @ t)"
proof -
  have nl: "NL \<notin> set (strip line)" using assms(2) strip_subset by blast
  from re_match_shape [OF _ nl, of n t] assms(1) show ?thesis
    by (auto simp: match_line_def list_all_iff)
qed

lemma dialogue_entries_shape:
  assumes "parse_dialogue_file e p = Inr (dialogue, characters)"
  shows "list_all (\<lambda>(n, t). n \<noteq> [] \<and> list_all is_word n \<and> t \<noteq> []) dialogue"
proof -
  from assms obtain content where c: "file_text e p = Some content"
    by (auto simp: parse_dialogue_file_def split: option.splits)
  from parse_dialogue_file_result [OF c] assms
  have d: "dialogue = List.map_filter match_line (split_nl content)" by simp
  have "n \<noteq> [] \<and> list_all is_word n \<and> t \<noteq> []" if "(n, t) \<in> set dialogue" for n t
  proof -
    from that d obtain l where l: "l \<in> set (split_nl content)" and m: "match_line l = Some (n, t)"
      by (auto simp: List.map_filter_def)
    from match_line_shape [OF m split_nl_no_NL [OF l]] show ?thesis by blast
  qed
  then show ?thesis by (auto simp: list_all_iff)
qed

text \<open>
  C10. A line is accepted only when, stripped, it is a non-empty run of word characters,
  a colon, whitespace and a non-empty text. A line whose part before the first colon has
  a character that is no word character, one with nothing after the colon and one with no
  colon give no dialogue line; so do \<open>Dr. Smith: hello\<close> and \<open>Bob:\<close>. Every entry of
  the dialogue parsed from a file has such a name and a non-empty text.
\<close>

theorem match_line_needs_word_prefix_and_text:
  assumes "NL \<notin> set line"
  shows "(match_line line = Some (n, t) \<longrightarrow>
            n \<noteq> [] \<and> list_all is_word n \<and> t \<noteq> [] \<and>
            (\<exists>ws. list_all is_space ws \<and> strip line = n @ '':'' @ ws @ t)) \<and>
         (strip line = pfx @ '':'' @ rest \<and> CHR '':'' \<notin> set pfx \<and> \<not> list_all is_word pfx \<longrightarrow>
            match_line line = None) \<and>
         (strip line = pfx @ '':'' \<and> CHR '':'' \<notin> set pfx \<longrightarrow> match_line line = None) \<and>
         (CHR '':'' \<notin> set (strip line) \<longrightarrow> match_line line = None) \<and>
         (parse_dialogue_file e p = Inr (dialogue, characters) \<longrightarrow>
            list_all (\<lambda>(n, t). n \<noteq> [] \<and> list_all is_word n \<and> t \<noteq> []) dialogue) \<and>
         match_line ''Dr. Smith: hello'' = None \<and> match_line ''Bob:'' = None"
proof -
  have shape: "n' \<noteq> [] \<and> list_all is_word n' \<and> t' \<noteq> [] \<and>
      (\<exists>ws. list_all is_space ws \<and> strip line = n' @ '':'' @ ws @ t')"
    if "match_line line = Some (n', t')" for n' t'
    using match_line_shape [OF that assms] .
  have colon: "CHR '':'' \<notin> set n'" if "list_all is_word n'" for n'
    using that colon_not_word by (auto simp: list_all_iff)
  have a: "match_line line = None"
    if "strip line = pfx @ '':'' @ rest" "CHR '':'' \<notin> set pfx" "\<not> list_all is_word pfx"
  proof (cases "match_line line")
    case None
    then show ?thesis .
  next
    case (Some r)
    obtain n' t' where r: "r = (n', t')" by (cases r)
    from shape [of n' t'] Some r obtain ws where w: "list_all is_word n'"
      and e: "strip line = n' @ CHR '':'' # ws @ t'" by auto
    from e that(1) have q: "n' @ CHR '':'' # ws @ t' = pfx @ CHR '':'' # rest" by simp
    from first_split_unique [OF colon [OF w] that(2) q] have "n' = pfx" by simp
    with w that(3) show ?thesis by simp
  qed
  have b: "match_line line = None" if "strip line = pfx @ '':''" "CHR '':'' \<notin> set pfx"
  proof (cases "match_line line")
    case None
    then show ?thesis .
  next
    case (Some r)
    obtain n' t' where r: "r = (n', t')" by (cases r)
    from shape [of n' t'] Some r obtain ws where w: "list_all is_word n'" and t: "t' \<noteq> []"
      and e: "strip line = n' @ CHR '':'' # ws @ t'" by auto
    from e that(1) have q: "n' @ CHR '':'' # ws @ t' = pfx @ CHR '':'' # []" by simp
    from first_split_unique [OF colon [OF w] that(2) q] have "ws @ t' = []" by simp
    with t show ?thesis by simp
  qed
  have c: "match_line line = None" if "CHR '':'' \<notin> set (strip line)"
  proof (cases "match_line line")
    case None
    then show ?thesis .
  next
    case (Some r)
    obtain n' t' where r: "r = (n', t')" by (cases r)
    from shape [of n' t'] Some r obtain ws where
      "strip line = n' @ CHR '':'' # ws @ t'" by auto
    with that show ?thesis by simp
  qed
  have d: "match_line ''Dr. Smith: hello'' = None"
    by (simp add: match_line_def re_match_def strip_def is_space_def is_word_def)
  have e: "match_line ''Bob:'' = None"
    by (simp add: match_line_def re_match_def strip_def is_space_def is_word_def
        backtrack_space_def)
  have f: "list_all (\<lambda>(n, t). n \<noteq> [] \<and> list_all is_word n \<and> t \<noteq> []) dialogue"
    if "parse_dialogue_file e p = Inr (dialogue, characters)"
    by (rule dialogue_entries_shape [OF that])
  from shape a b c d e f show ?thesis by blast
qed


theorem match_line_needs_word_prefix_and_text_witness:
  "NL \<notin> set ''Ann_2:  see you'' \<and>
   match_line ''Ann_2:  see you'' = Some (''Ann_2'', ''see you'') \<and>
   list_all is_word ''Ann_2'' \<and> list_all is_space ''  '' \<and>
   strip ''Ann_2:  see you'' = ''Ann_2'' @ '':'' @ ''  '' @ ''see you'' \<and>
   NL \<notin> set ''Mr X: hi '' \<and> strip ''Mr X: hi '' = ''Mr X'' @ '':'' @ '' hi'' \<and>
   CHR '':'' \<notin> set ''Mr X'' \<and> \<not> list_all is_word ''Mr X'' \<and> match_line ''Mr X: hi '' = None \<and>
   NL \<notin> set ''Bob:   '' \<and> strip ''Bob:   '' = ''Bob'' @ '':'' \<and> CHR '':'' \<notin> set ''Bob'' \<and>
   match_line ''Bob:   '' = None \<and>
   NL \<notin> set ''just words'' \<and> CHR '':'' \<notin> set (strip ''just words'') \<and>
   match_line ''just words'' = None \<and>
   parse_dialogue_file
     (sample_env (''Jos'' @ [CHR 0xE9] @ '': hola'' @ [NL] @ ''Dr. Smith: hello'' @ [NL] @ ''Bob:'')
        None [''v0''] remdups) ''script.txt''
     = Inr ([(''Jos'' @ [CHR 0xE9], ''hola'')], [''Jos'' @ [CHR 0xE9]]) \<and>
   list_all (\<lambda>(n, t). n \<noteq> [] \<and> list_all is_word n \<and> t \<noteq> [])
     [(''Jos'' @ [CHR 0xE9], ''hola'')]"
proof -
  have n1: "NL \<notin> set ''Ann_2:  see you''" by (simp add: NL_def)
  have m1: "match_line ''Ann_2:  see you'' = Some (''Ann_2'', ''see you'')"
    by (simp add: match_line_def re_match_def strip_def is_space_def is_word_def NL_def)
  have s1: "strip ''Ann_2:  see you'' = ''Ann_2'' @ '':'' @ ''  '' @ ''see you''"
    by (simp add: strip_def is_space_def)
  have w1: "list_all is_word ''Ann_2''" by (simp add: is_word_def)
  have g1: "list_all is_space ''  ''" by (simp add: is_space_def)
  have n2: "NL \<notin> set ''Mr X: hi ''" by (simp add: NL_def)
  have s2: "strip ''Mr X: hi '' = ''Mr X'' @ '':'' @ '' hi''" by (simp add: strip_def is_space_def)
  have c2: "CHR '':'' \<notin> set ''Mr X''" by simp
  have w2: "\<not> list_all is_word ''Mr X''" by (simp add: is_word_def)
  have n3: "NL \<notin> set ''Bob:   ''" by (simp add: NL_def)
  have s3: "strip ''Bob:   '' = ''Bob'' @ '':''" by (simp add: strip_def is_space_def)
  have c3: "CHR '':'' \<notin> set ''Bob''" by simp
  have n4: "NL \<notin> set ''just words''" by (simp add: NL_def)
  have c4: "CHR '':'' \<notin> set (strip ''just words'')" by (simp add: strip_def is_space_def)
  from match_line_needs_word_prefix_and_text [OF n2, of n t "''Mr X''" "'' hi''"] s2 c2 w2
  have r2: "match_line ''Mr X: hi '' = None" by blast
  from match_line_needs_word_prefix_and_text [OF n3, of n t "''Bob''"] s3 c3
  have r3: "match_line ''Bob:   '' = None" by blast
  from match_line_needs_word_prefix_and_text [OF n4] c4
  have r4: "match_line ''just words'' = None" by blast
  have p5: "parse_dialogue_file
     (sample_env (''Jos'' @ [CHR 0xE9] @ '': hola'' @ [NL] @ ''Dr. Smith: hello'' @ [NL] @ ''Bob:'')
        None [''v0''] remdups) ''script.txt''
     = Inr ([(''Jos'' @ [CHR 0xE9], ''hola'')], [''Jos'' @ [CHR 0xE9]])"
    by (simp add: parse_dialogue_file_def sample_env_def NL_def match_line_def re_match_def
        strip_def is_space_def is_word_def backtrack_space_def)
  from match_line_needs_word_prefix_and_text [OF n4] p5
  have r5: "list_all (\<lambda>(n, t). n \<noteq> [] \<and> list_all is_word n \<and> t \<noteq> [])
     [(''Jos'' @ [CHR 0xE9], ''hola'')]" by blast
  from n1 m1 s1 w1 g1 n2 s2 c2 w2 r2 n3 s3 c3 r3 n4 c4 r4 p5 r5 show ?thesis by blast
qed

text \<open>
  C1 (as amended). The speaker list has no duplicates and holds exactly the speakers of
  the first-seen list, as many as there are; their order is that of iterating over the
  set, whatever it is.
\<close>

theorem speakers_distinct_in_set_order:
  assumes "set_iter_ok (set_iter e)" and "parse_dialogue_file e p = Inr (dialogue, characters)"
  shows "distinct characters \<and> set characters = set (first_seen (map fst dialogue)) \<and>
         length characters = length (first_seen (map fst dialogue))"
proof -
  from parse_dialogue_file_speakers [OF assms]
  have d: "distinct characters" and s: "set characters = set (first_seen (map fst dialogue))"
    by (simp_all add: set_first_seen)
  from d s distinct_first_seen [of "map fst dialogue"]
  have "length characters = length (first_seen (map fst dialogue))"
    by (metis distinct_card)
  with d s show ?thesis by simp
qed

lemma set_iter_ok_remdups: "set_iter_ok remdups"
  by (simp add: set_iter_ok_def)

theorem speakers_distinct_in_set_order_witness:
  "set_iter_ok (set_iter (sample_env (''Bob: hi'' @ [NL] @ ''Ann: hello'' @ [NL] @ ''Bob: bye'')
                            None [''v0''] remdups)) \<and>
   parse_dialogue_file (sample_env (''Bob: hi'' @ [NL] @ ''Ann: hello'' @ [NL] @ ''Bob: bye'')
                          None [''v0''] remdups) ''script.txt''
     = Inr ([(''Bob'', ''hi''), (''Ann'', ''hello''), (''Bob'', ''bye'')], [''Ann'', ''Bob'']) \<and>
   distinct [''Ann'', ''Bob''] \<and>
   set [''Ann'', ''Bob'']
     = set (first_seen (map fst [(''Bob'', ''hi''), (''Ann'', ''hello''), (''Bob'', ''bye'')])) \<and>
   length [''Ann'', ''Bob'']
     = length (first_seen (map fst [(''Bob'', ''hi''), (''Ann'', ''hello''), (''Bob'', ''bye'')]))"
proof -
  let ?e = "sample_env (''Bob: hi'' @ [NL] @ ''Ann: hello'' @ [NL] @ ''Bob: bye'')
              None [''v0''] remdups"
  have h1: "set_iter_ok (set_iter ?e)"
    by (simp add: sample_env_def set_iter_ok_remdups)
  have h2: "parse_dialogue_file ?e ''script.txt''
     = Inr ([(''Bob'', ''hi''), (''Ann'', ''hello''), (''Bob'', ''bye'')], [''Ann'', ''Bob''])"
    by (simp add: parse_dialogue_file_def sample_env_def NL_def match_line_def re_match_def
        strip_def is_space_def is_word_def)
  from speakers_distinct_in_set_order [OF h1 h2] h1 h2 show ?thesis by blast
qed

text \<open>
  An iteration order under which the speaker list of a three-line script is not in
  first-seen order.
\<close>

theorem speakers_first_seen_counterexample:
  "set_iter_ok remdups \<and>
   parse_dialogue_file (sample_env (''Bob: hi'' @ [NL] @ ''Ann: hello'' @ [NL] @ ''Bob: bye'')
                          None [''v0''] remdups) ''script.txt''
     = Inr ([(''Bob'', ''hi''), (''Ann'', ''hello''), (''Bob'', ''bye'')], [''Ann'', ''Bob'']) \<and>
   first_seen (map fst [(''Bob'', ''hi''), (''Ann'', ''hello''), (''Bob'', ''bye'')])
     = [''Bob'', ''Ann''] \<and>
   [''Ann'', ''Bob''] \<noteq> [''Bob'', ''Ann'']"
  by (simp add: set_iter_ok_remdups parse_dialogue_file_def sample_env_def NL_def match_line_def
      re_match_def strip_def is_space_def is_word_def)

subsection \<open>Assembly\<close>

lemma generate_known_speaker:
  "map_of voice_map character = Some voice \<Longrightarrow>
   generate_character_audio e character text voice_map w =
     (Inr (line_clip e voice_map (length (requests w)) (character, text)),
      w\<lparr>requests := requests w @ [(text, voice)]\<rparr>)"
  by (simp add: generate_character_audio_def line_clip_def)

lemma pause_duration_line_pause:
  "0 \<le> p_stdev \<Longrightarrow>
   pause_duration p_mean p_stdev (gauss e k) = Inr (max 0 (py_int (of_int p_mean + of_int p_stdev * gauss e k)))"
  by (simp add: pause_duration_def normal_def)

lemma conversation_loop_no_KeyError:
  "fst ` set d \<subseteq> fst ` set vm \<Longrightarrow>
   fst (conversation_loop e d vm pm ps conv w) \<noteq> Inl (KeyError k)"
proof (induction d arbitrary: conv w)
  case Nil
  then show ?case by simp
next
  case (Cons l d)
  obtain c t where l: "l = (c, t)" by (cases l)
  from Cons.prems l have "c \<in> fst ` set vm" by simp
  then obtain v where v: "map_of vm c = Some v"
    by (metis map_of_eq_None_iff not_Some_eq)
  from Cons.prems have sub: "fst ` set d \<subseteq> fst ` set vm" by simp
  show ?case
  proof (cases "pause_duration pm ps (gauss e (draws w))")
    case (Inl err)
    then have "err = ValueError"
      by (auto simp: pause_duration_def normal_def split: if_splits)
    with Inl show ?thesis
      by (simp add: l generate_known_speaker [OF v])
  next
    case (Inr p)
    with Cons.IH [OF sub] show ?thesis
      by (simp add: l generate_known_speaker [OF v])
  qed
qed

lemma choose_voice_map_auto:
  "\<not> truthy (speaker_map a) \<Longrightarrow>
   choose_voice_map e a characters available_voices w =
     (assign_voices_to_characters characters available_voices, w)"
  by (simp add: choose_voice_map_def)

lemma output_file_total: "\<exists>name. output_file input = Inr name"
  by (simp add: output_file_def rsplit1_def)

text \<open>
  C5 (as amended). In auto-assignment mode a voice map that is built has an entry for
  every speaker of the dialogue, and the run never ends in a failed lookup. In either
  mode, a map with an entry for every speaker makes every lookup of the assembly
  succeed; the keys of a custom map are not checked.
\<close>

theorem voice_map_covers_speakers:
  assumes "set_iter_ok (set_iter e)"
    and "parse_dialogue_file e (input_file a) = Inr (dialogue, characters)"
    and "choose_voice_map e a characters (get_available_voices e) w = (Inr voice_map, w1)"
  shows "(\<not> truthy (speaker_map a) \<longrightarrow> fst ` set dialogue \<subseteq> fst ` set voice_map) \<and>
         (fst ` set dialogue \<subseteq> fst ` set voice_map \<longrightarrow>
            fst (create_conversation_audio e dialogue voice_map p_mean p_stdev w2)
              \<noteq> Inl (KeyError k)) \<and>
         (\<not> truthy (speaker_map a) \<longrightarrow> fst (main e a) \<noteq> Inl (KeyError k))"
proof -
  have nk: "fst (create_conversation_audio e dialogue voice_map pm ps w') \<noteq> Inl (KeyError k)"
    if "fst ` set dialogue \<subseteq> fst ` set voice_map" for pm ps w'
    unfolding create_conversation_audio_def
    by (rule conversation_loop_no_KeyError [OF that])
  have auto_mode: "fst ` set dialogue \<subseteq> fst ` set voice_map \<and> fst (main e a) \<noteq> Inl (KeyError k)"
    if m: "\<not> truthy (speaker_map a)"
  proof -
    from m assms(3)
    have asg: "assign_voices_to_characters characters (get_available_voices e) = Inr voice_map"
      by (simp add: choose_voice_map_auto)
    then have "fst ` set voice_map = set characters"
      using assign_loop_keys [of 0 characters "get_available_voices e" "[]" voice_map]
      by (simp add: assign_voices_to_characters_def)
    moreover from parse_dialogue_file_speakers [OF assms(1,2)]
    have "set characters = fst ` set dialogue" by simp
    ultimately have cover: "fst ` set dialogue \<subseteq> fst ` set voice_map" by simp
    have ch: "choose_voice_map e a characters (get_available_voices e) w_init
        = (Inr voice_map, w_init)"
      using m asg by (simp add: choose_voice_map_auto)
    let ?w2 = "print_assignments voice_map (print ''Voice assignments:'' w_init)"
    obtain r w3 where cr: "create_conversation_audio e dialogue voice_map
        (pause_mean a) (pause_stdev a) ?w2 = (r, w3)"
      by (cases "create_conversation_audio e dialogue voice_map (pause_mean a) (pause_stdev a) ?w2")
    from nk [OF cover, of "pause_mean a" "pause_stdev a" ?w2] cr
    have rk: "r \<noteq> Inl (KeyError k)" by simp
    obtain name where nm: "output_file (input_file a) = Inr name"
      using output_file_total by blast
    have "fst (main e a) \<noteq> Inl (KeyError k)"
      using rk by (cases r) (simp_all add: main_def assms(2) ch cr nm Let_def)
    with cover show ?thesis by simp
  qed
  from nk auto_mode show ?thesis by blast
qed

theorem voice_map_covers_speakers_witness:
  "set_iter_ok (set_iter (sample_env (''Bob: hi'' @ [NL] @ ''Ann: yo'' @ [NL] @ ''Bob: bye'')
                            None [''v0''] remdups)) \<and>
   \<not> truthy (speaker_map (sample_args None 500 100)) \<and>
   parse_dialogue_file (sample_env (''Bob: hi'' @ [NL] @ ''Ann: yo'' @ [NL] @ ''Bob: bye'')
                          None [''v0''] remdups) (input_file (sample_args None 500 100))
     = Inr ([(''Bob'', ''hi''), (''Ann'', ''yo''), (''Bob'', ''bye'')], [''Ann'', ''Bob'']) \<and>
   choose_voice_map (sample_env (''Bob: hi'' @ [NL] @ ''Ann: yo'' @ [NL] @ ''Bob: bye'')
                       None [''v0''] remdups) (sample_args None 500 100) [''Ann'', ''Bob'']
       (get_available_voices (sample_env (''Bob: hi'' @ [NL] @ ''Ann: yo'' @ [NL] @ ''Bob: bye'')
                                None [''v0''] remdups)) w_init
     = (Inr [(''Ann'', ''v0''), (''Bob'', ''v0'')], w_init) \<and>
   fst ` set [(''Bob'', ''hi''), (''Ann'', ''yo''), (''Bob'', ''bye'')]
     \<subseteq> fst ` set [(''Ann'', ''v0''), (''Bob'', ''v0'')] \<and>
   fst (create_conversation_audio
          (sample_env (''Bob: hi'' @ [NL] @ ''Ann: yo'' @ [NL] @ ''Bob: bye'') None [''v0''] remdups)
          [(''Bob'', ''hi''), (''Ann'', ''yo''), (''Bob'', ''bye'')]
          [(''Ann'', ''v0''), (''Bob'', ''v0'')] 0 0 w_init) \<noteq> Inl (KeyError ''Bob'') \<and>
   fst (main (sample_env (''Bob: hi'' @ [NL] @ ''Ann: yo'' @ [NL] @ ''Bob: bye'')
                None [''v0''] remdups) (sample_args None 500 100)) \<noteq> Inl (KeyError ''Bob'')"
proof -
  let ?e = "sample_env (''Bob: hi'' @ [NL] @ ''Ann: yo'' @ [NL] @ ''Bob: bye'') None [''v0''] remdups"
  let ?a = "sample_args None 500 100"
  have h1: "set_iter_ok (set_iter ?e)" by (simp add: sample_env_def set_iter_ok_remdups)
  have h2: "\<not> truthy (speaker_map ?a)" by (simp add: truthy_def sample_args_def)
  have h3: "parse_dialogue_file ?e (input_file ?a)
     = Inr ([(''Bob'', ''hi''), (''Ann'', ''yo''), (''Bob'', ''bye'')], [''Ann'', ''Bob''])"
    by (simp add: parse_dialogue_file_def sample_env_def sample_args_def NL_def match_line_def
        re_match_def strip_def is_space_def is_word_def)
  have h4: "choose_voice_map ?e ?a [''Ann'', ''Bob''] (get_available_voices ?e) w_init
     = (Inr [(''Ann'', ''v0''), (''Bob'', ''v0'')], w_init)"
    by (simp add: choose_voice_map_def truthy_def sample_args_def sample_env_def
        get_available_voices_def assign_voices_to_characters_def)
  from voice_map_covers_speakers [OF h1 h3 h4, of 0 0 w_init "''Bob''"] h1 h2 h3 h4
  show ?thesis by blast
qed

text \<open>A custom map with valid voices that leaves out the second speaker of the script.\<close>

theorem custom_map_missing_speaker_counterexample:
  "main (sample_env (''Ann: hi'' @ [NL] @ ''Bob: yo'') (Some [(''Ann'', ''v0'')]) [''v0''] remdups)
     (sample_args (Some ''map.json'') 200 0)
   = (Inl (KeyError ''Bob''),
      \<lparr>out = [''Voice assignments:'', ''Ann: v0''], requests = [(''hi'', ''v0'')], draws = 1\<rparr>)"
  by (simp add: main_def parse_dialogue_file_def sample_env_def sample_args_def NL_def
      match_line_def re_match_def strip_def is_space_def is_word_def choose_voice_map_def
      truthy_def get_available_voices_def invalid_voices_def w_init_def
      create_conversation_audio_def generate_character_audio_def pause_duration_def normal_def
      py_int_def print_def)


lemma invalid_voices_set:
  "set_iter_ok (set_iter e) \<Longrightarrow>
   set (invalid_voices e custom available) = snd ` set custom - set available"
  by (auto simp: invalid_voices_def set_iter_ok_def)

lemma print_fields:
  "out (print s w) = out w @ [s]" "requests (print s w) = requests w" "draws (print s w) = draws w"
  by (simp_all add: print_def)

lemma print_assignments_out:
  "print_assignments vm w = w\<lparr>out := out w @ map (\<lambda>(c, v). c @ '': '' @ v) vm\<rparr>"
  by (induction vm arbitrary: w) (auto simp: print_def)

lemma conversation_loop_out:
  "out (snd (conversation_loop e d vm pm ps conv w)) = out w"
proof (induction d arbitrary: conv w)
  case Nil
  then show ?case by simp
next
  case (Cons l d)
  obtain c t where l: "l = (c, t)" by (cases l)
  show ?case
  proof (cases "map_of vm c")
    case None
    then show ?thesis by (simp add: l generate_character_audio_def)
  next
    case (Some v)
    show ?thesis
    proof (cases "pause_duration pm ps (gauss e (draws w))")
      case (Inl err)
      with Some show ?thesis by (simp add: l generate_character_audio_def)
    next
      case (Inr p)
      with Some Cons.IH show ?thesis by (simp add: l generate_character_audio_def)
    qed
  qed
qed

lemma conversation_loop_run:
  assumes "fst ` set d \<subseteq> fst ` set vm" and "0 \<le> ps"
  shows "conversation_loop e d vm pm ps conv w =
           (Inr (conv @ concat (map (\<lambda>k. [line_clip e vm (length (requests w) + k) (d ! k),
                                            Silence (line_pause e pm ps (draws w + k))])
                                  [0..<length d])),
            w\<lparr>requests := requests w @ map (\<lambda>(c, t). (t, the (map_of vm c))) d,
              draws := draws w + length d\<rparr>)"
  using assms(1)
proof (induction d arbitrary: conv w)
  case Nil
  then show ?case by simp
next
  case (Cons l d)
  obtain c t where l: "l = (c, t)" by (cases l)
  from Cons.prems l have "c \<in> fst ` set vm" by simp
  then obtain v where v: "map_of vm c = Some v"
    by (metis map_of_eq_None_iff not_Some_eq)
  let ?w1 = "w\<lparr>requests := requests w @ [(t, v)]\<rparr>"
  let ?w2 = "?w1\<lparr>draws := Suc (draws ?w1)\<rparr>"
  let ?conv = "conv @ ([line_clip e vm (length (requests w)) (c, t)] @
                       [Silence (line_pause e pm ps (draws w))])"
  have step: "conversation_loop e (l # d) vm pm ps conv w = conversation_loop e d vm pm ps ?conv ?w2"
    using assms(2) by (simp add: l generate_known_speaker [OF v] pause_duration_line_pause
        line_pause_def)
  from Cons.prems have sub: "fst ` set d \<subseteq> fst ` set vm" by simp
  have m: "map (\<lambda>k. [line_clip e vm (length (requests w) + k) ((l # d) ! k),
                      Silence (line_pause e pm ps (draws w + k))]) [0..<length (l # d)]
           = [line_clip e vm (length (requests w)) (c, t), Silence (line_pause e pm ps (draws w))]
             # map (\<lambda>k. [line_clip e vm (length (requests ?w2) + k) (d ! k),
                            Silence (line_pause e pm ps (draws ?w2 + k))]) [0..<length d]"
    by (simp add: map_upt_Suc l del: upt_Suc)
  show ?case
    unfolding step Cons.IH [OF sub] m by (simp add: l v)
qed

lemma main_out_prefix:
  assumes "parse_dialogue_file e (input_file a) = Inr (dialogue, characters)"
    and "choose_voice_map e a characters (get_available_voices e) w_init = (Inr voice_map, w_init)"
  shows "\<exists>rest. out (snd (main e a)) =
           ''Voice assignments:'' # map (\<lambda>(c, v). c @ '': '' @ v) voice_map @ rest"
proof -
  let ?w2 = "print_assignments voice_map (print ''Voice assignments:'' w_init)"
  have o2: "out ?w2 = ''Voice assignments:'' # map (\<lambda>(c, v). c @ '': '' @ v) voice_map"
    by (simp add: print_assignments_out print_fields w_init_def)
  obtain r w3 where cr: "create_conversation_audio e dialogue voice_map
      (pause_mean a) (pause_stdev a) ?w2 = (r, w3)"
    by (cases "create_conversation_audio e dialogue voice_map (pause_mean a) (pause_stdev a) ?w2")
  have o3: "out w3 = out ?w2"
    using conversation_loop_out [of e dialogue voice_map "pause_mean a" "pause_stdev a" "[]" ?w2] cr
    by (simp add: create_conversation_audio_def)
  obtain name where nm: "output_file (input_file a) = Inr name"
    using output_file_total by blast
  show ?thesis
  proof (cases r)
    case (Inl err)
    then have "snd (main e a) = w3"
      by (simp add: main_def assms cr Let_def)
    with o3 o2 show ?thesis by simp
  next
    case (Inr conversation)
    then have "out (snd (main e a)) = out w3 @
        [[NL] @ ''Conversation audio generated and saved as '' @ [CHR 0x27] @ name @ [CHR 0x27]]"
      by (simp add: main_def assms cr nm Let_def print_fields)
    with o3 o2 show ?thesis by simp
  qed
qed

lemma main_requests:
  assumes "parse_dialogue_file e (input_file a) = Inr (dialogue, characters)"
    and "choose_voice_map e a characters (get_available_voices e) w_init = (Inr voice_map, w_init)"
    and "fst ` set dialogue \<subseteq> fst ` set voice_map" and "0 \<le> pause_stdev a"
  shows "requests (snd (main e a)) = map (\<lambda>(c, t). (t, the (map_of voice_map c))) dialogue"
proof -
  let ?w2 = "print_assignments voice_map (print ''Voice assignments:'' w_init)"
  have r2: "requests ?w2 = []" "draws ?w2 = 0"
    by (simp_all add: print_assignments_out print_fields w_init_def)
  obtain name where nm: "output_file (input_file a) = Inr name"
    using output_file_total by blast
  show ?thesis
    by (simp add: main_def assms(1,2) Let_def create_conversation_audio_def
        conversation_loop_run [OF assms(3,4)] nm r2 print_fields)
qed


text \<open>
  C8 (the defect). The run of a two-line script with clips of 1000 ms and 1500 ms and a
  fixed pause of 200 ms: a silence of 200 ms follows the last clip as it follows the
  first, so the timeline holds two pauses and not the one that lies between the lines.
\<close>

theorem two_lines_trailing_pause:
  "main (sample_env (''Ann: hi'' @ [NL] @ ''Bob: yo'') None [''v0'', ''v1''] remdups)
     (sample_args None 200 0)
   = (Inr (''script_output.wav'',
           [Clip ''hi'' ''v0'' 1000, Silence 200, Clip ''yo'' ''v1'' 1500, Silence 200]),
      \<lparr>out = [''Voice assignments:'', ''Ann: v0'', ''Bob: v1'',
               [NL] @ ''Conversation audio generated and saved as ''
                 @ [CHR 0x27] @ ''script_output.wav'' @ [CHR 0x27]],
       requests = [(''hi'', ''v0''), (''yo'', ''v1'')], draws = 2\<rparr>)"
  by (simp add: main_def parse_dialogue_file_def sample_env_def sample_args_def NL_def
      match_line_def re_match_def strip_def is_space_def is_word_def choose_voice_map_def
      truthy_def get_available_voices_def assign_voices_to_characters_def w_init_def
      create_conversation_audio_def generate_character_audio_def pause_duration_def normal_def
      py_int_def print_def output_file_def rsplit1_def)

text \<open>
  C2 (as amended). With a catalogue that is not empty, the voice map pairs the speaker at
  index \<open>i\<close> of a duplicate-free speaker list with the voice at \<open>i\<close> modulo the
  catalogue's length, in that order; five speakers and three voices give the voices at
  0, 1, 2, 0, 1. In a run the list is the one that parsing returns, and the assignment
  printed follows it: the index is the place in the order of the set, not the place of
  the first occurrence in the script.
\<close>

theorem assignment_follows_speaker_list:
  assumes "available_voices \<noteq> []" and "distinct characters"
  shows "\<exists>voice_map.
           assign_voices_to_characters characters available_voices = Inr voice_map \<and>
           voice_map = map (\<lambda>i. (characters ! i,
                                   available_voices ! (i mod length available_voices)))
                         [0..<length characters] \<and>
           (\<forall>i<length characters. map_of voice_map (characters ! i) =
                Some (available_voices ! (i mod length available_voices))) \<and>
           (length characters = 5 \<and> length available_voices = 3 \<longrightarrow>
              map (map_of voice_map) characters =
              map (\<lambda>j. Some (available_voices ! j)) [0, 1, 2, 0, 1]) \<and>
           (\<not> truthy (speaker_map a) \<and>
            parse_dialogue_file e (input_file a) = Inr (dialogue, characters) \<and>
            get_available_voices e = available_voices \<longrightarrow>
              (\<exists>rest. out (snd (main e a)) =
                 ''Voice assignments:''
                 # map (\<lambda>(c, v). c @ '': '' @ v) voice_map @ rest))"
proof -
  let ?vm = "map (\<lambda>i. (characters ! i, available_voices ! (i mod length available_voices)))
               [0..<length characters]"
  have r: "assign_voices_to_characters characters available_voices = Inr ?vm"
    using assign_loop_result [OF assms(2) _ assms(1), of "[]" 0]
    by (simp add: assign_voices_to_characters_def)
  from assign_loop_distinct [OF assms(2) assms(1), of 0 "[]"] r
  have ix: "\<forall>i<length characters. map_of ?vm (characters ! i) =
                Some (available_voices ! (i mod length available_voices))"
    by (auto simp: assign_voices_to_characters_def)
  have five: "map (map_of ?vm) characters = map (\<lambda>j. Some (available_voices ! j)) [0, 1, 2, 0, 1]"
    if l: "length characters = 5" "length available_voices = 3"
  proof (rule nth_equalityI)
    show "length (map (map_of ?vm) characters) =
          length (map (\<lambda>j. Some (available_voices ! j)) [0, 1, 2, 0, 1 :: nat])"
      using l by simp
  next
    fix i assume "i < length (map (map_of ?vm) characters)"
    then have i: "i < 5" using l by simp
    then consider "i = 0" | "i = 1" | "i = 2" | "i = 3" | "i = 4" by linarith
    then show "map (map_of ?vm) characters ! i =
               map (\<lambda>j. Some (available_voices ! j)) [0, 1, 2, 0, 1] ! i"
      using ix l by cases simp_all
  qed
  have run: "\<exists>rest. out (snd (main e a)) =
                 ''Voice assignments:'' # map (\<lambda>(c, v). c @ '': '' @ v) ?vm @ rest"
    if "\<not> truthy (speaker_map a)"
      "parse_dialogue_file e (input_file a) = Inr (dialogue, characters)"
      "get_available_voices e = available_voices"
  proof -
    have "choose_voice_map e a characters (get_available_voices e) w_init = (Inr ?vm, w_init)"
      using that(1,3) r by (simp add: choose_voice_map_auto)
    from main_out_prefix [OF that(2) this] show ?thesis .
  qed
  from r ix five run show ?thesis by blast
qed

theorem assignment_follows_speaker_list_witness:
  "[''v0'', ''v1'', ''v2''] \<noteq> [] \<and> distinct [''Ann'', ''Bob'', ''Cy'', ''Di'', ''Ed''] \<and>
   assign_voices_to_characters [''Ann'', ''Bob'', ''Cy'', ''Di'', ''Ed''] [''v0'', ''v1'', ''v2'']
     = Inr [(''Ann'', ''v0''), (''Bob'', ''v1''), (''Cy'', ''v2''), (''Di'', ''v0''), (''Ed'', ''v1'')] \<and>
   [''v0'', ''v1''] \<noteq> [] \<and> distinct [''Ann'', ''Bob''] \<and>
   \<not> truthy (speaker_map (sample_args None 200 0)) \<and>
   parse_dialogue_file
     (sample_env (''Bob: hi'' @ [NL] @ ''Ann: hello'' @ [NL] @ ''Bob: bye'') None [''v0'', ''v1''] remdups)
     (input_file (sample_args None 200 0))
     = Inr ([(''Bob'', ''hi''), (''Ann'', ''hello''), (''Bob'', ''bye'')], [''Ann'', ''Bob'']) \<and>
   get_available_voices
     (sample_env (''Bob: hi'' @ [NL] @ ''Ann: hello'' @ [NL] @ ''Bob: bye'') None [''v0'', ''v1''] remdups)
     = [''v0'', ''v1''] \<and>
   (\<exists>rest. out (snd (main
       (sample_env (''Bob: hi'' @ [NL] @ ''Ann: hello'' @ [NL] @ ''Bob: bye'') None [''v0'', ''v1''] remdups)
       (sample_args None 200 0)))
     = ''Voice assignments:'' # [''Ann: v0'', ''Bob: v1''] @ rest)"
proof -
  let ?e = "sample_env (''Bob: hi'' @ [NL] @ ''Ann: hello'' @ [NL] @ ''Bob: bye'') None
              [''v0'', ''v1''] remdups"
  let ?a = "sample_args None 200 0"
  have h1: "[''v0'', ''v1'', ''v2''] \<noteq> []" by simp
  have h2: "distinct [''Ann'', ''Bob'', ''Cy'', ''Di'', ''Ed'']" by simp
  have g1: "[''v0'', ''v1''] \<noteq> []" by simp
  have g2: "distinct [''Ann'', ''Bob'']" by simp
  have g3: "\<not> truthy (speaker_map ?a)" by (simp add: truthy_def sample_args_def)
  have g4: "parse_dialogue_file ?e (input_file ?a)
     = Inr ([(''Bob'', ''hi''), (''Ann'', ''hello''), (''Bob'', ''bye'')], [''Ann'', ''Bob''])"
    by (simp add: parse_dialogue_file_def sample_env_def sample_args_def NL_def match_line_def
        re_match_def strip_def is_space_def is_word_def)
  have g5: "get_available_voices ?e = [''v0'', ''v1'']"
    by (simp add: get_available_voices_def sample_env_def)
  have u5: "[0..<5] = [0, 1, 2, 3, 4::nat]" by (simp add: upt_rec)
  have u2: "[0..<2] = [0, 1::nat]" by (simp add: upt_rec)
  from assignment_follows_speaker_list [OF h1 h2]
  have r1: "assign_voices_to_characters [''Ann'', ''Bob'', ''Cy'', ''Di'', ''Ed''] [''v0'', ''v1'', ''v2'']
     = Inr [(''Ann'', ''v0''), (''Bob'', ''v1''), (''Cy'', ''v2''), (''Di'', ''v0''), (''Ed'', ''v1'')]"
    by (auto simp: u5)
  from assignment_follows_speaker_list [OF g1 g2, of ?a ?e] g3 g4 g5
  have r2: "\<exists>rest. out (snd (main ?e ?a)) = ''Voice assignments:'' # [''Ann: v0'', ''Bob: v1''] @ rest"
    by (auto simp: u2)
  from h1 h2 r1 g1 g2 g3 g4 g5 r2 show ?thesis by blast
qed

text \<open>
  A run in which the speaker seen first in the script gets the second voice of the
  catalogue.
\<close>

theorem first_seen_index_counterexample:
  "set_iter_ok remdups \<and>
   parse_dialogue_file
     (sample_env (''Bob: hi'' @ [NL] @ ''Ann: hello'' @ [NL] @ ''Bob: bye'') None [''v0'', ''v1''] remdups)
     ''script.txt''
     = Inr ([(''Bob'', ''hi''), (''Ann'', ''hello''), (''Bob'', ''bye'')], [''Ann'', ''Bob'']) \<and>
   first_seen (map fst [(''Bob'', ''hi''), (''Ann'', ''hello''), (''Bob'', ''bye'')]) ! 0 = ''Bob'' \<and>
   [''v0'', ''v1''] ! (0 mod length [''v0'', ''v1'']) = ''v0'' \<and>
   requests (snd (main
       (sample_env (''Bob: hi'' @ [NL] @ ''Ann: hello'' @ [NL] @ ''Bob: bye'') None [''v0'', ''v1''] remdups)
       (sample_args None 200 0)))
     = [(''hi'', ''v1''), (''hello'', ''v0''), (''bye'', ''v1'')] \<and>
   take 3 (out (snd (main
       (sample_env (''Bob: hi'' @ [NL] @ ''Ann: hello'' @ [NL] @ ''Bob: bye'') None [''v0'', ''v1''] remdups)
       (sample_args None 200 0))))
     = [''Voice assignments:'', ''Ann: v0'', ''Bob: v1''] \<and>
   ''v1'' \<noteq> ''v0''"
  by (simp add: set_iter_ok_remdups main_def parse_dialogue_file_def sample_env_def
      sample_args_def NL_def match_line_def re_match_def strip_def is_space_def is_word_def
      choose_voice_map_def truthy_def get_available_voices_def assign_voices_to_characters_def
      w_init_def create_conversation_audio_def generate_character_audio_def pause_duration_def
      normal_def py_int_def print_def output_file_def rsplit1_def)


text \<open>
  C3. In custom mode, when every voice of the loaded map is in the catalogue, the map
  itself becomes the voice map with nothing printed on the way, the assignment that
  \<open>main\<close> prints is the map item by item, and, when the run goes through, every line is
  requested with the voice the map gives its speaker. Otherwise the run prints the
  offending voices, each once, then the whole catalogue, and exits with status 1 without
  a single synthesis request.
\<close>

theorem custom_map_verbatim_or_exit:
  assumes "set_iter_ok (set_iter e)" and "truthy (speaker_map a)"
    and "json_load e (the (speaker_map a)) = Inr custom_voice_map"
    and "parse_dialogue_file e (input_file a) = Inr (dialogue, characters)"
  shows "(snd ` set custom_voice_map \<subseteq> set (get_available_voices e) \<longrightarrow>
            choose_voice_map e a characters (get_available_voices e) w = (Inr custom_voice_map, w) \<and>
            (\<exists>rest. out (snd (main e a)) =
               ''Voice assignments:''
               # map (\<lambda>(c, v). c @ '': '' @ v) custom_voice_map @ rest)) \<and>
         (snd ` set custom_voice_map \<subseteq> set (get_available_voices e) \<and>
          fst ` set dialogue \<subseteq> fst ` set custom_voice_map \<and> 0 \<le> pause_stdev a \<longrightarrow>
            list_all2 (\<lambda>(c, t) (t', v). t' = t \<and> map_of custom_voice_map c = Some v)
              dialogue (requests (snd (main e a)))) \<and>
         (\<not> snd ` set custom_voice_map \<subseteq> set (get_available_voices e) \<longrightarrow>
            (\<exists>names. distinct names \<and>
               set names = snd ` set custom_voice_map - set (get_available_voices e) \<and>
               main e a =
                 (Inl (SystemExit 1),
                  \<lparr>out = [''Warning: The following voices in the custom map are not available: ''
                            @ join '', '' names,
                          ''Available voices: '' @ join '', '' (get_available_voices e)],
                   requests = [], draws = 0\<rparr>)))"
proof -
  let ?av = "get_available_voices e"
  let ?inv = "invalid_voices e custom_voice_map ?av"
  have inv: "set ?inv = snd ` set custom_voice_map - set ?av"
    by (rule invalid_voices_set [OF assms(1)])
  have a: "choose_voice_map e a characters ?av w' = (Inr custom_voice_map, w')"
    if "snd ` set custom_voice_map \<subseteq> set ?av" for w'
  proof -
    have "set ?inv = {}" unfolding inv using that by (simp add: Diff_eq_empty_iff)
    then have "?inv = []" by simp
    with assms(2,3) show ?thesis by (simp add: choose_voice_map_def Let_def)
  qed
  have b: "\<exists>rest. out (snd (main e a)) =
             ''Voice assignments:'' # map (\<lambda>(c, v). c @ '': '' @ v) custom_voice_map @ rest"
    if "snd ` set custom_voice_map \<subseteq> set ?av"
    by (rule main_out_prefix [OF assms(4) a [OF that]])
  have c: "list_all2 (\<lambda>(c, t) (t', v). t' = t \<and> map_of custom_voice_map c = Some v)
             dialogue (requests (snd (main e a)))"
    if v: "snd ` set custom_voice_map \<subseteq> set ?av"
      and cover: "fst ` set dialogue \<subseteq> fst ` set custom_voice_map"
      and sd: "0 \<le> pause_stdev a"
  proof -
    have rq: "requests (snd (main e a)) =
        map (\<lambda>(c, t). (t, the (map_of custom_voice_map c))) dialogue"
      by (rule main_requests [OF assms(4) a [OF v] cover sd])
    have "map_of custom_voice_map c' = Some (the (map_of custom_voice_map c'))"
      if "(c', t') \<in> set dialogue" for c' t'
    proof -
      from that cover have "c' \<in> fst ` set custom_voice_map" by force
      then have "map_of custom_voice_map c' \<noteq> None" by (simp add: map_of_eq_None_iff)
      then show ?thesis by simp
    qed
    then show ?thesis
      unfolding rq by (auto simp: list_all2_map2 list_all2_same)
  qed
  have d: "\<exists>names. distinct names \<and> set names = snd ` set custom_voice_map - set ?av \<and>
      main e a =
        (Inl (SystemExit 1),
         \<lparr>out = [''Warning: The following voices in the custom map are not available: ''
                   @ join '', '' names,
                 ''Available voices: '' @ join '', '' ?av],
          requests = [], draws = 0\<rparr>)"
    if "\<not> snd ` set custom_voice_map \<subseteq> set ?av"
  proof -
    let ?names = "set_iter e ?inv"
    have "set ?inv \<noteq> {}" unfolding inv using that by (simp add: Diff_eq_empty_iff)
    then have ne: "?inv \<noteq> []" by (simp only: set_empty not_False_eq_True)
    from assms(1) have dn: "distinct ?names" and s: "set ?names = set ?inv"
      by (simp_all add: set_iter_ok_def)
    have "choose_voice_map e a characters ?av w_init =
        (Inl (SystemExit 1),
         print (''Available voices: '' @ join '', '' ?av)
           (print (''Warning: The following voices in the custom map are not available: ''
                     @ join '', '' ?names) w_init))"
      using assms(2,3) ne by (simp add: choose_voice_map_def Let_def)
    then have "main e a =
        (Inl (SystemExit 1),
         \<lparr>out = [''Warning: The following voices in the custom map are not available: ''
                   @ join '', '' ?names,
                 ''Available voices: '' @ join '', '' ?av],
          requests = [], draws = 0\<rparr>)"
      by (simp add: main_def assms(4) print_def w_init_def)
    with dn s inv show ?thesis by blast
  qed
  from a b c d show ?thesis by blast
qed

theorem custom_map_verbatim_or_exit_witness:
  "set_iter_ok (set_iter (sample_env ''Ann: hi'' (Some [(''Ann'', ''v1'')]) [''v0'', ''v1''] remdups)) \<and>
   truthy (speaker_map (sample_args (Some ''map.json'') 500 100)) \<and>
   json_load (sample_env ''Ann: hi'' (Some [(''Ann'', ''v1'')]) [''v0'', ''v1''] remdups)
     (the (speaker_map (sample_args (Some ''map.json'') 500 100))) = Inr [(''Ann'', ''v1'')] \<and>
   parse_dialogue_file (sample_env ''Ann: hi'' (Some [(''Ann'', ''v1'')]) [''v0'', ''v1''] remdups)
     (input_file (sample_args (Some ''map.json'') 500 100)) = Inr ([(''Ann'', ''hi'')], [''Ann'']) \<and>
   snd ` set [(''Ann'', ''v1'')]
     \<subseteq> set (get_available_voices
               (sample_env ''Ann: hi'' (Some [(''Ann'', ''v1'')]) [''v0'', ''v1''] remdups)) \<and>
   fst ` set [(''Ann'', ''hi'')] \<subseteq> fst ` set [(''Ann'', ''v1'')] \<and>
   0 \<le> pause_stdev (sample_args (Some ''map.json'') 500 100) \<and>
   choose_voice_map (sample_env ''Ann: hi'' (Some [(''Ann'', ''v1'')]) [''v0'', ''v1''] remdups)
     (sample_args (Some ''map.json'') 500 100) [''Ann'']
     (get_available_voices (sample_env ''Ann: hi'' (Some [(''Ann'', ''v1'')]) [''v0'', ''v1''] remdups))
     w_init = (Inr [(''Ann'', ''v1'')], w_init) \<and>
   (\<exists>rest. out (snd (main (sample_env ''Ann: hi'' (Some [(''Ann'', ''v1'')]) [''v0'', ''v1''] remdups)
                         (sample_args (Some ''map.json'') 500 100)))
      = ''Voice assignments:'' # [''Ann: v1''] @ rest) \<and>
   requests (snd (main (sample_env ''Ann: hi'' (Some [(''Ann'', ''v1'')]) [''v0'', ''v1''] remdups)
                    (sample_args (Some ''map.json'') 500 100)))
     = [(''hi'', ''v1'')] \<and>
   set_iter_ok (set_iter (sample_env ''Ann: hi'' (Some [(''Ann'', ''zz''), (''Bob'', ''v0'')])
                            [''v0'', ''v1''] remdups)) \<and>
   json_load (sample_env ''Ann: hi'' (Some [(''Ann'', ''zz''), (''Bob'', ''v0'')]) [''v0'', ''v1''] remdups)
     (the (speaker_map (sample_args (Some ''map.json'') 500 100)))
     = Inr [(''Ann'', ''zz''), (''Bob'', ''v0'')] \<and>
   parse_dialogue_file
     (sample_env ''Ann: hi'' (Some [(''Ann'', ''zz''), (''Bob'', ''v0'')]) [''v0'', ''v1''] remdups)
     (input_file (sample_args (Some ''map.json'') 500 100)) = Inr ([(''Ann'', ''hi'')], [''Ann'']) \<and>
   \<not> snd ` set [(''Ann'', ''zz''), (''Bob'', ''v0'')]
     \<subseteq> set (get_available_voices
               (sample_env ''Ann: hi'' (Some [(''Ann'', ''zz''), (''Bob'', ''v0'')])
                  [''v0'', ''v1''] remdups)) \<and>
   (\<exists>names. distinct names \<and> set names = {''zz''} \<and>
      main (sample_env ''Ann: hi'' (Some [(''Ann'', ''zz''), (''Bob'', ''v0'')]) [''v0'', ''v1''] remdups)
        (sample_args (Some ''map.json'') 500 100)
      = (Inl (SystemExit 1),
         \<lparr>out = [''Warning: The following voices in the custom map are not available: ''
                   @ join '', '' names,
                 ''Available voices: v0, v1''],
          requests = [], draws = 0\<rparr>))"
proof -
  let ?a = "sample_args (Some ''map.json'') 500 100"
  let ?e1 = "sample_env ''Ann: hi'' (Some [(''Ann'', ''v1'')]) [''v0'', ''v1''] remdups"
  let ?e2 = "sample_env ''Ann: hi'' (Some [(''Ann'', ''zz''), (''Bob'', ''v0'')]) [''v0'', ''v1''] remdups"
  have t: "truthy (speaker_map ?a)" by (simp add: truthy_def sample_args_def)
  have sd: "0 \<le> pause_stdev ?a" by (simp add: sample_args_def)
  have o1: "set_iter_ok (set_iter ?e1)" by (simp add: sample_env_def set_iter_ok_remdups)
  have j1: "json_load ?e1 (the (speaker_map ?a)) = Inr [(''Ann'', ''v1'')]"
    by (simp add: sample_env_def sample_args_def)
  have p1: "parse_dialogue_file ?e1 (input_file ?a) = Inr ([(''Ann'', ''hi'')], [''Ann''])"
    by (simp add: parse_dialogue_file_def sample_env_def sample_args_def match_line_def
        re_match_def strip_def is_space_def is_word_def NL_def)
  have v1: "snd ` set [(''Ann'', ''v1'')] \<subseteq> set (get_available_voices ?e1)"
    by (simp add: get_available_voices_def sample_env_def)
  have c1: "fst ` set [(''Ann'', ''hi'')] \<subseteq> fst ` set [(''Ann'', ''v1'')]" by simp
  have o2: "set_iter_ok (set_iter ?e2)" by (simp add: sample_env_def set_iter_ok_remdups)
  have j2: "json_load ?e2 (the (speaker_map ?a)) = Inr [(''Ann'', ''zz''), (''Bob'', ''v0'')]"
    by (simp add: sample_env_def sample_args_def)
  have p2: "parse_dialogue_file ?e2 (input_file ?a) = Inr ([(''Ann'', ''hi'')], [''Ann''])"
    by (simp add: parse_dialogue_file_def sample_env_def sample_args_def match_line_def
        re_match_def strip_def is_space_def is_word_def NL_def)
  have v2: "\<not> snd ` set [(''Ann'', ''zz''), (''Bob'', ''v0'')] \<subseteq> set (get_available_voices ?e2)"
    by (simp add: get_available_voices_def sample_env_def)
  have g2: "get_available_voices ?e2 = [''v0'', ''v1'']"
    by (simp add: get_available_voices_def sample_env_def)
  have s2: "snd ` set [(''Ann'', ''zz''), (''Bob'', ''v0'')] - set [''v0'', ''v1''] = {''zz''}"
    by auto
  note th1 = custom_map_verbatim_or_exit [OF o1 t j1 p1, of w_init]
  from th1 v1
  have r1: "choose_voice_map ?e1 ?a [''Ann''] (get_available_voices ?e1) w_init
      = (Inr [(''Ann'', ''v1'')], w_init)"
    by blast
  from th1 v1
  have r1b: "\<exists>rest. out (snd (main ?e1 ?a)) = ''Voice assignments:'' # [''Ann: v1''] @ rest"
    by simp
  from th1 v1 c1 sd
  have "list_all2 (\<lambda>(c, t) (t', v). t' = t \<and> map_of [(''Ann'', ''v1'')] c = Some v)
          [(''Ann'', ''hi'')] (requests (snd (main ?e1 ?a)))"
    by blast
  then have r1c: "requests (snd (main ?e1 ?a)) = [(''hi'', ''v1'')]"
    by (auto simp: list_all2_Cons1)
  from custom_map_verbatim_or_exit [OF o2 t j2 p2] v2
  have "\<exists>names. distinct names \<and>
      set names = snd ` set [(''Ann'', ''zz''), (''Bob'', ''v0'')] - set (get_available_voices ?e2) \<and>
      main ?e2 ?a =
        (Inl (SystemExit 1),
         \<lparr>out = [''Warning: The following voices in the custom map are not available: ''
                   @ join '', '' names,
                 ''Available voices: '' @ join '', '' (get_available_voices ?e2)],
          requests = [], draws = 0\<rparr>)"
    by blast
  then have r2: "\<exists>names. distinct names \<and> set names = {''zz''} \<and>
      main ?e2 ?a =
        (Inl (SystemExit 1),
         \<lparr>out = [''Warning: The following voices in the custom map are not available: ''
                   @ join '', '' names,
                 ''Available voices: v0, v1''],
          requests = [], draws = 0\<rparr>)"
    unfolding g2 s2 by simp
  from t sd o1 j1 p1 v1 c1 r1 r1b r1c o2 j2 p2 v2 r2 show ?thesis by blast
qed

end
